theory Spec2Isabelle
  imports Complex_Main
begin

section \<open>Python values used by the ingestion scripts\<close>

text \<open>
  Strings are lists of characters and the development covers ASCII text: a character
  outside ASCII belongs to none of the classes below.  Python floats are modelled by the
  real number they denote, with the two infinities and not-a-number beside them; the
  rounding of a decimal literal to the nearest double and the sign of zero are not
  modelled.
\<close>

datatype py_error =
    KeyError string
  | ValueError
  | TypeError
  | IndexError
  | UnboundLocalError string
  | Exception string

datatype pyfloat = Finite real | Infinity bool | NaN

definition is_digit :: "char \<Rightarrow> bool" where
  "is_digit c = (c \<in> set ''0123456789'')"

definition is_sign :: "char \<Rightarrow> bool" where
  "is_sign c = (c \<in> set ''+-'')"

definition is_dot :: "char \<Rightarrow> bool" where
  "is_dot c = (c = CHR ''.'')"

text \<open>The class \<open>\s\<close> of a \<open>str\<close> pattern, on ASCII: tab to carriage return, the four
  separators 0x1C to 0x1F, and the space.\<close>

definition is_space :: "char \<Rightarrow> bool" where
  "is_space c = (c \<in> set [CHR 0x09, CHR 0x0A, CHR 0x0B, CHR 0x0C, CHR 0x0D,
                            CHR 0x1C, CHR 0x1D, CHR 0x1E, CHR 0x1F, CHR '' ''])"

text \<open>The class \<open>\w\<close> of a \<open>str\<close> pattern, on ASCII: letters, digits and the underscore.\<close>

definition is_word :: "char \<Rightarrow> bool" where
  "is_word c = (c \<in> set (''abcdefghijklmnopqrstuvwxyz'' @ ''ABCDEFGHIJKLMNOPQRSTUVWXYZ''
                           @ ''0123456789'' @ ''_''))"

text \<open>\<open>str.lower\<close> on ASCII.\<close>

definition lower_char :: "char \<Rightarrow> char" where
  "lower_char c =
     (case map_of (zip ''ABCDEFGHIJKLMNOPQRSTUVWXYZ'' ''abcdefghijklmnopqrstuvwxyz'') c of
        Some l \<Rightarrow> l
      | None \<Rightarrow> c)"

definition lower :: "string \<Rightarrow> string" where
  "lower s = map lower_char s"

subsection \<open>The builtin \<open>float\<close> on a string\<close>

text \<open>
  \<open>float(s)\<close> strips the white space around \<open>s\<close>, accepts underscores between two digits
  only, and then reads an optional sign followed by \<open>inf\<close>, \<open>infinity\<close> or \<open>nan\<close> in any
  case, or by a decimal number with an optional exponent.  Anything else raises
  \<open>ValueError\<close>, which is the result \<open>None\<close> here.
\<close>

definition is_float_space :: "char \<Rightarrow> bool" where
  "is_float_space c = (c \<in> set [CHR 0x09, CHR 0x0A, CHR 0x0B, CHR 0x0C, CHR 0x0D, CHR '' ''])"

definition strip :: "string \<Rightarrow> string" where
  "strip s = rev (dropWhile is_float_space (rev (dropWhile is_float_space s)))"

fun underscores_ok :: "char \<Rightarrow> string \<Rightarrow> bool" where
  "underscores_ok prev [] = (prev \<noteq> CHR ''_'')"
| "underscores_ok prev (c # cs) =
     (if c = CHR ''_'' then is_digit prev \<and> underscores_ok c cs
      else (prev = CHR ''_'' \<longrightarrow> is_digit c) \<and> underscores_ok c cs)"

definition digit_val :: "char \<Rightarrow> nat" where
  "digit_val c = of_char c - 48"

definition digits_val :: "string \<Rightarrow> nat" where
  "digits_val ds = foldl (\<lambda>acc c. 10 * acc + digit_val c) 0 ds"

definition split_sign :: "string \<Rightarrow> bool \<times> string" where
  "split_sign s =
     (case s of
        c # cs \<Rightarrow> if c = CHR ''-'' then (True, cs) else if c = CHR ''+'' then (False, cs)
                  else (False, s)
      | [] \<Rightarrow> (False, s))"

definition parse_exponent :: "string \<Rightarrow> int option" where
  "parse_exponent s =
     (case s of
        [] \<Rightarrow> Some 0
      | c # cs \<Rightarrow>
          if c = CHR ''e'' \<or> c = CHR ''E'' then
            (let (neg, ds) = split_sign cs in
             if ds \<noteq> [] \<and> list_all is_digit ds
             then Some (if neg then - int (digits_val ds) else int (digits_val ds))
             else None)
          else None)"

definition scale10 :: "real \<Rightarrow> int \<Rightarrow> real" where
  "scale10 x e = (if 0 \<le> e then x * 10 ^ nat e else x / 10 ^ nat (- e))"

definition parse_decimal :: "string \<Rightarrow> real option" where
  "parse_decimal s =
     (let ip = takeWhile is_digit s;
          r1 = dropWhile is_digit s;
          fp = (case r1 of c # cs \<Rightarrow> if is_dot c then takeWhile is_digit cs else [] | [] \<Rightarrow> []);
          r2 = (case r1 of c # cs \<Rightarrow> if is_dot c then dropWhile is_digit cs else r1 | [] \<Rightarrow> [])
      in if ip = [] \<and> fp = [] then None
         else (case parse_exponent r2 of
                 None \<Rightarrow> None
               | Some e \<Rightarrow> Some (scale10 (real (digits_val (ip @ fp))) (e - int (length fp)))))"

definition py_float :: "string \<Rightarrow> pyfloat option" where
  "py_float s =
     (let t = strip s in
      if \<not> underscores_ok (CHR 0x00) t then None
      else
        (let (neg, body) = split_sign (filter (\<lambda>c. c \<noteq> CHR ''_'') t) in
         if lower body = ''inf'' \<or> lower body = ''infinity'' then Some (Infinity neg)
         else if lower body = ''nan'' then Some NaN
         else (case parse_decimal body of
                 None \<Rightarrow> None
               | Some x \<Rightarrow> Some (Finite (if neg then - x else x)))))"

section \<open>Exceptions as values\<close>

text \<open>A computation that may raise returns \<open>Inl\<close> of the exception; \<open>bind_err\<close> runs the
  next statement only when the previous one returned.\<close>

definition bind_err :: "py_error + 'a \<Rightarrow> ('a \<Rightarrow> py_error + 'b) \<Rightarrow> py_error + 'b" where
  "bind_err m f = (case m of Inl e \<Rightarrow> Inl e | Inr v \<Rightarrow> f v)"

text \<open>\<open>d[k]\<close> on a dictionary, \<open>xs[i]\<close> on a list with an index that is not negative, and
  \<open>float(s)\<close> as a statement that raises.\<close>

definition dict_item :: "(string \<rightharpoonup> 'v) \<Rightarrow> string \<Rightarrow> py_error + 'v" where
  "dict_item d k = (case d k of None \<Rightarrow> Inl (KeyError k) | Some v \<Rightarrow> Inr v)"

definition list_item :: "'a list \<Rightarrow> nat \<Rightarrow> py_error + 'a" where
  "list_item xs i = (if i < length xs then Inr (xs ! i) else Inl IndexError)"

definition float_of_str :: "string \<Rightarrow> py_error + pyfloat" where
  "float_of_str s = (case py_float s of None \<Rightarrow> Inl ValueError | Some f \<Rightarrow> Inr f)"

text \<open>\<open>d.get(k, default)\<close>, applied to the result of the lookup.\<close>

definition get_or :: "'a option \<Rightarrow> 'a \<Rightarrow> 'a" where
  "get_or r d = (case r of Some v \<Rightarrow> v | None \<Rightarrow> d)"


section \<open>Data model\<close>

text \<open>
  The records of the source systems and of the destination client, with the fields the
  scripts read and write.  Several records share field names; a shadowed field is written
  with the name of its record.  An asset carries a name, an external id and a metadata
  dictionary of strings; a sequence column is a dictionary whose three keys may each be
  missing; a cell of a sequence row is a number or \<open>None\<close>.  The angle unit and the date
  type belong to libraries and stay type parameters.
\<close>

datatype DistanceUnitEnum = meter | inch | foot

record DistanceUnit =
  unit :: DistanceUnitEnum
  factor :: "pyfloat option"

record Distance =
  "value" :: pyfloat
  unit :: DistanceUnitEnum

record Datum =
  "value" :: pyfloat
  unit :: DistanceUnitEnum
  reference :: string

record Column =
  externalId :: "string option"
  description :: "string option"
  metadata :: "(string \<rightharpoonup> string) option"

record DepthIndexColumn =
  column_external_id :: string
  unit :: DistanceUnit
  type :: string

type_synonym cell = "real option"

record Sequence =
  external_id :: string
  columns :: "Column list"

record SequenceSource =
  sequence_external_id :: string
  source_name :: string

record TrajectoryIngestionRow =
  measured_depth :: pyfloat
  inclination :: real
  azimuth :: real

record 'a TrajectoryIngestion =
  wellbore_asset_external_id :: string
  source :: SequenceSource
  measured_depth_unit :: DistanceUnitEnum
  inclination_unit :: 'a
  azimuth_unit :: 'a
  is_definitive :: bool
  rows :: "TrajectoryIngestionRow list"

record Asset =
  external_id :: string
  parent_external_id :: "string option"
  name :: string
  metadata :: "string \<rightharpoonup> string"

record AssetSource =
  asset_external_id :: string
  source_name :: string

record Wellhead =
  x :: pyfloat
  y :: pyfloat
  crs :: string

record 'dt WellIngestion =
  name :: string
  description :: "string option"
  matching_id :: string
  source :: AssetSource
  wellhead :: Wellhead
  type :: "string option"
  water_depth :: "Distance option"
  operator :: "string option"
  spud_date :: "'dt option"

record 'd WellboreIngestion =
  name :: string
  description :: string
  matching_id :: string
  well_asset_external_id :: string
  source :: AssetSource
  datum :: "'d option"

section \<open>Unit parser (\<open>utils/measurements.py\<close>)\<close>

text \<open>
  Modelled from the spec: the class \<open>DistanceUnit\<close> belongs to the destination client
  library and is not part of the sources, so the value of \<open>factor\<close> in
  \<open>DistanceUnit(unit=...)\<close> is taken from the data model of the specification
  ("factor defaults to 1.0 if no numeric prefix is present").  The field is optional in the
  library, which is why the callers test it against \<open>None\<close>; the trajectory script
  multiplies every depth by the factor of \<open>DistanceUnit(unit="foot")\<close>, so the default is a
  number there.
\<close>

definition DistanceUnit_default_factor :: "pyfloat option" where
  "DistanceUnit_default_factor = Some (Finite 1)"

definition unit_map_by_unit :: "(DistanceUnitEnum \<times> string list) list" where
  "unit_map_by_unit =
     [(meter, [''m'', ''meter'', ''meters'']),
      (inch, [''in'', ''inch'', ''inches'']),
      (foot, [''feet'', ''foot'', ''ft''])]"

text \<open>The dictionary comprehension \<open>{vv: k for k, v in ... for vv in v}\<close>: later entries
  overwrite earlier ones.\<close>

definition unit_map :: "string \<rightharpoonup> DistanceUnitEnum" where
  "unit_map =
     fold (\<lambda>(vv, k) m. m(vv \<mapsto> k))
       (concat (map (\<lambda>(k, v). map (\<lambda>vv. (vv, k)) v) unit_map_by_unit)) Map.empty"

subsection \<open>The pattern \<open>(?P<factor>[+-]?([0-9]*[.])?[0-9]+)?\s*(?P<unit>\w+)\<close>\<close>

text \<open>
  The backtracking matcher is modelled by lists of successes: each function returns the
  ways a piece of the pattern can match a prefix of the input, as pairs of the matched
  text and the rest, in the order in which the matcher tries them.  A greedy repetition
  tries the longest run first.
\<close>

definition greedy_star :: "(char \<Rightarrow> bool) \<Rightarrow> string \<Rightarrow> (string \<times> string) list" where
  "greedy_star p s =
     map (\<lambda>k. (take k s, drop k s)) (rev [0 ..< Suc (length (takeWhile p s))])"

definition greedy_plus :: "(char \<Rightarrow> bool) \<Rightarrow> string \<Rightarrow> (string \<times> string) list" where
  "greedy_plus p s = filter (\<lambda>(m, r). m \<noteq> []) (greedy_star p s)"

definition opt_char :: "(char \<Rightarrow> bool) \<Rightarrow> string \<Rightarrow> (string \<times> string) list" where
  "opt_char p s =
     (case s of
        c # cs \<Rightarrow> if p c then [([c], cs), ([], s)] else [([], s)]
      | [] \<Rightarrow> [([], s)])"

text \<open>\<open>([0-9]*[.])?\<close>: the digits and the point, or nothing.\<close>

definition opt_int_part :: "string \<Rightarrow> (string \<times> string) list" where
  "opt_int_part s =
     concat (map (\<lambda>(d, r). case r of c # cs \<Rightarrow> if is_dot c then [(d @ [c], cs)] else []
                                     | [] \<Rightarrow> [])
                 (greedy_star is_digit s))
     @ [([], s)]"

text \<open>The characters of a factor: a sign, a digit or the point.\<close>

definition factor_char :: "char \<Rightarrow> bool" where
  "factor_char c = (is_sign c \<or> is_digit c \<or> is_dot c)"

text \<open>\<open>[+-]?([0-9]*[.])?[0-9]+\<close>\<close>

definition factor_matches :: "string \<Rightarrow> (string \<times> string) list" where
  "factor_matches s =
     concat (map (\<lambda>(sg, r1).
       concat (map (\<lambda>(a, r2).
         map (\<lambda>(b, r3). (sg @ a @ b, r3)) (greedy_plus is_digit r2))
         (opt_int_part r1)))
       (opt_char is_sign s))"

text \<open>The optional group \<open>factor\<close>: taken when it can be, skipped otherwise.\<close>

definition opt_factor :: "string \<Rightarrow> (string option \<times> string) list" where
  "opt_factor s = map (\<lambda>(m, r). (Some m, r)) (factor_matches s) @ [(None, s)]"

text \<open>All matches of the whole pattern that end at the end of the input, as the groups
  \<open>(factor, unit)\<close>; \<open>fullmatch\<close> returns the first.\<close>

definition unit_regex_matches :: "string \<Rightarrow> (string option \<times> string) list" where
  "unit_regex_matches s =
     concat (map (\<lambda>(f, r1).
       concat (map (\<lambda>(w, r2).
         concat (map (\<lambda>(u, r3). if r3 = [] then [(f, u)] else []) (greedy_plus is_word r2)))
         (greedy_star is_space r1)))
       (opt_factor s))"

definition unit_regex_fullmatch :: "string \<Rightarrow> (string option \<times> string) option" where
  "unit_regex_fullmatch s = (case unit_regex_matches s of [] \<Rightarrow> None | g # _ \<Rightarrow> Some g)"

text \<open>
  \<open>parse_unit\<close>.  The group \<open>factor\<close> is never the empty string, so \<open>if factor_match\<close>
  asks whether the group took part in the match.  Its text matches the factor pattern,
  so \<open>float\<close> does not raise on it; the model returns \<open>None\<close> there to stay total.
\<close>

definition parse_unit :: "string \<Rightarrow> DistanceUnit option" where
  "parse_unit u =
     (if u = ''mm'' then Some \<lparr>DistanceUnit.unit = meter, factor = Some (Finite 0.001)\<rparr>
      else if u = ''m rkb''
      then Some \<lparr>DistanceUnit.unit = meter, factor = DistanceUnit_default_factor\<rparr>
      else
        (case unit_regex_fullmatch u of
           None \<Rightarrow> None
         | Some (factor_match, unit_match) \<Rightarrow>
             (case (case factor_match of
                      Some fm \<Rightarrow> py_float fm
                    | None \<Rightarrow> Some (Finite 1.0)) of
                None \<Rightarrow> None
              | Some f \<Rightarrow>
                  (case unit_map unit_match of
                     Some k \<Rightarrow> Some \<lparr>DistanceUnit.unit = k, factor = Some f\<rparr>
                   | None \<Rightarrow> None))))"

section \<open>Distance resolver\<close>

definition parse_distance :: "string option \<Rightarrow> string option \<Rightarrow> Distance option" where
  "parse_distance v u =
     (case (v, u) of
        (Some vs, Some us) \<Rightarrow>
          (case py_float vs of
             None \<Rightarrow> None
           | Some float_value \<Rightarrow>
               (case parse_unit us of
                  None \<Rightarrow> None
                | Some parsed_unit \<Rightarrow>
                    if factor parsed_unit \<noteq> None \<and> factor parsed_unit \<noteq> Some (Finite 1.0)
                    then None
                    else Some \<lparr>Distance.value = float_value,
                               Distance.unit = DistanceUnit.unit parsed_unit\<rparr>))
      | _ \<Rightarrow> None)"

section \<open>Column classifier: the measured-depth column\<close>

text \<open>\<open>_parse\<close>: the identifier, the description and the unit, all in lower case.\<close>

definition parse_column :: "Column \<Rightarrow> string \<times> string \<times> string" where
  "parse_column column =
     (let unit' = lower (get_or (get_or (Column.metadata column) Map.empty ''unit'') []);
          external_id' = lower (get_or (externalId column) []);
          desc = lower (get_or (Column.description column) [])
      in (external_id', desc, unit'))"

definition measured_depth :: "Column \<Rightarrow> DepthIndexColumn option" where
  "measured_depth column =
     (let (external_id0, desc, unit') = parse_column column;
          external_id' = get_or (externalId column) []
      in if lower external_id' \<in> set [''md'', ''tdep'', ''depth'', ''dept''] then
           (case parse_unit unit' of
              None \<Rightarrow> None
            | Some parsed_unit \<Rightarrow>
                Some \<lparr>column_external_id = external_id', DepthIndexColumn.unit = parsed_unit,
                      DepthIndexColumn.type = ''measured depth''\<rparr>)
         else None)"

section \<open>Name cleaner and chunking (\<open>utils/__init__.py\<close>)\<close>

text \<open>
  Each \<open>re.sub\<close> scans the string from the left and replaces the leftmost match at every
  position it reaches; none of the three patterns matches the empty string.
\<close>

definition is_crlfsp :: "char \<Rightarrow> bool" where
  "is_crlfsp c = (c \<in> set [CHR 0x0D, CHR 0x0A, CHR '' ''])"

definition is_dashsp :: "char \<Rightarrow> bool" where
  "is_dashsp c = (c \<in> set ''- '')"

text \<open>\<open>re.sub("[\r\n ]+", " ", s)\<close>\<close>

function sub_spaces :: "string \<Rightarrow> string" where
  "sub_spaces [] = []"
| "sub_spaces (c # cs) =
     (if is_crlfsp c then CHR '' '' # sub_spaces (dropWhile is_crlfsp cs)
      else c # sub_spaces cs)"
  by pat_completeness auto
termination
  by (relation "measure length") (auto simp: length_dropWhile_le less_Suc_eq_le)

text \<open>\<open>re.sub("Wellbore|Well", "", s)\<close>: at each position the first alternative is tried
  first.\<close>

function sub_well :: "string \<Rightarrow> string" where
  "sub_well [] = []"
| "sub_well (c # cs) =
     (if take 8 (c # cs) = ''Wellbore'' then sub_well (drop 8 (c # cs))
      else if take 4 (c # cs) = ''Well'' then sub_well (drop 4 (c # cs))
      else c # sub_well cs)"
  by pat_completeness auto
termination
  by (relation "measure length") auto

text \<open>\<open>re.sub("[- ]+$", "", s)\<close>: \<open>$\<close> holds at the end of the string and before a line
  feed that ends it.\<close>

definition at_dollar :: "string \<Rightarrow> bool" where
  "at_dollar r = (r = [] \<or> r = [CHR 0x0A])"

fun sub_trailing :: "string \<Rightarrow> string" where
  "sub_trailing [] = []"
| "sub_trailing (c # cs) =
     (if is_dashsp c \<and> at_dollar (dropWhile is_dashsp cs) then dropWhile is_dashsp cs
      else c # sub_trailing cs)"

definition clean_name :: "string \<Rightarrow> string" where
  "clean_name s = sub_trailing (sub_well (sub_spaces s))"

text \<open>\<open>occurs pat s\<close>: the text \<open>pat\<close> is a substring of \<open>s\<close> (Python's \<open>pat in s\<close>).\<close>

fun occurs :: "string \<Rightarrow> string \<Rightarrow> bool" where
  "occurs pat [] = (pat = [])"
| "occurs pat (c # cs) = (take (length pat) (c # cs) = pat \<or> occurs pat cs)"

text \<open>
  \<open>chunks\<close> is a generator; the model returns the list of the values it yields.
  \<open>range(0, len(lst), n)\<close> raises \<open>ValueError\<close> for the step 0 and is empty for a
  negative step.
\<close>

function chunks_from :: "'a list \<Rightarrow> nat \<Rightarrow> nat \<Rightarrow> 'a list list" where
  "chunks_from lst n i =
     (if 0 < n \<and> i < length lst then take n (drop i lst) # chunks_from lst n (i + n) else [])"
  by pat_completeness auto
termination
  by (relation "measure (\<lambda>(lst, n, i). length lst - i)") auto

declare chunks_from.simps [simp del]

definition chunks :: "'a list \<Rightarrow> int \<Rightarrow> py_error + 'a list list" where
  "chunks lst n =
     (if n = 0 then Inl ValueError
      else if n < 0 then Inr []
      else Inr (chunks_from lst (nat n) 0))"

section \<open>Trajectory mapper (\<open>02-trajectories.py\<close>)\<close>

text \<open>
  A cell of a sequence row is a number or \<open>None\<close>; the columns the mapper reads are
  numeric.  A number is false when it is zero.  The angle unit is an enumeration of the
  client library and stays a type parameter.
\<close>

definition truthy :: "cell \<Rightarrow> bool" where
  "truthy c = (case c of None \<Rightarrow> False | Some v \<Rightarrow> v \<noteq> 0)"

text \<open>The product of a number and a float.\<close>

definition py_mul :: "real \<Rightarrow> pyfloat \<Rightarrow> pyfloat" where
  "py_mul v f =
     (case f of
        Finite g \<Rightarrow> Finite (v * g)
      | Infinity neg \<Rightarrow> if v = 0 then NaN else Infinity (if v < 0 then \<not> neg else neg)
      | NaN \<Rightarrow> NaN)"

text \<open>\<open>v % m\<close> for a positive \<open>m\<close>: the remainder has the sign of \<open>m\<close>.\<close>

definition py_mod :: "real \<Rightarrow> real \<Rightarrow> real" where
  "py_mod v m = v - m * of_int \<lfloor>v / m\<rfloor>"

text \<open>\<open>find_index\<close>: the position of the first column whose \<open>externalId\<close> is \<open>extid\<close>.\<close>

fun first_index :: "Column list \<Rightarrow> string \<Rightarrow> nat \<Rightarrow> nat option" where
  "first_index [] extid i = None"
| "first_index (col # cols) extid i =
     (if externalId col = Some extid then Some i else first_index cols extid (Suc i))"

definition find_index :: "Sequence \<Rightarrow> string \<Rightarrow> py_error + nat" where
  "find_index sequence extid =
     (case first_index (columns sequence) extid 0 of
        None \<Rightarrow>
          Inl (Exception (''Couldn'' @ [CHR 0x27] @ ''t find column with externalId ''
                          @ [CHR 0x27] @ extid @ [CHR 0x27]
                          @ '' in sequence '' @ Sequence.external_id sequence))
      | Some index \<Rightarrow> Inr index)"

text \<open>The body of the loop over the rows: the row to append, or \<open>None\<close> for
  \<open>continue\<close>.\<close>

definition trajectory_row ::
  "DepthIndexColumn \<Rightarrow> nat \<Rightarrow> nat \<Rightarrow> nat \<Rightarrow> cell list
     \<Rightarrow> py_error + TrajectoryIngestionRow option" where
  "trajectory_row md_column md_index inc_index azim_index values =
     bind_err (list_item values md_index) (\<lambda>md_cell.
     bind_err (if truthy md_cell
               then (case factor (DepthIndexColumn.unit md_column) of
                       None \<Rightarrow> Inl TypeError
                     | Some f \<Rightarrow> Inr (Some (py_mul (the md_cell) f)))
               else Inr None) (\<lambda>md.
     bind_err (list_item values inc_index) (\<lambda>inc.
     bind_err (list_item values azim_index) (\<lambda>azim_cell.
       let azim = (if truthy azim_cell then Some (py_mod (the azim_cell) 360.0) else None) in
       if md = None \<or> inc = None \<or> azim = None then Inr None
       else Inr (Some \<lparr>TrajectoryIngestionRow.measured_depth = the md,
                       inclination = the inc, azimuth = the azim\<rparr>)))))"

fun trajectory_rows ::
  "DepthIndexColumn \<Rightarrow> nat \<Rightarrow> nat \<Rightarrow> nat \<Rightarrow> (int \<times> cell list) list
     \<Rightarrow> TrajectoryIngestionRow list \<Rightarrow> py_error + TrajectoryIngestionRow list" where
  "trajectory_rows md_column md_index inc_index azim_index [] acc = Inr acc"
| "trajectory_rows md_column md_index inc_index azim_index ((row_number, values) # items) acc =
     bind_err (trajectory_row md_column md_index inc_index azim_index values) (\<lambda>r.
       trajectory_rows md_column md_index inc_index azim_index items
         (case r of None \<Rightarrow> acc | Some row \<Rightarrow> acc @ [row]))"

definition create_trajectory_ingestion ::
  "string \<Rightarrow> Sequence \<Rightarrow> (int \<times> cell list) list \<Rightarrow> DepthIndexColumn
     \<Rightarrow> string \<times> 'a \<Rightarrow> string \<times> 'a \<Rightarrow> string \<Rightarrow> bool
     \<Rightarrow> py_error + 'a TrajectoryIngestion option" where
  "create_trajectory_ingestion wellbore_asset_external_id' sequence data md_column
       inclination_column azimuth_column source_name' is_definitive' =
     (let (inc_extid, inc_unit) = inclination_column;
          (azim_extid, azim_unit) = azimuth_column;
          traj = \<lparr>wellbore_asset_external_id = wellbore_asset_external_id',
                  TrajectoryIngestion.source =
                    \<lparr>sequence_external_id = Sequence.external_id sequence,
                     SequenceSource.source_name = source_name'\<rparr>,
                  measured_depth_unit = DistanceUnit.unit (DepthIndexColumn.unit md_column),
                  inclination_unit = inc_unit,
                  azimuth_unit = azim_unit,
                  is_definitive = is_definitive',
                  rows = []\<rparr>
      in
      bind_err (find_index sequence (column_external_id md_column)) (\<lambda>md_index.
      bind_err (find_index sequence inc_extid) (\<lambda>inc_index.
      bind_err (find_index sequence azim_extid) (\<lambda>azim_index.
      bind_err (trajectory_rows md_column md_index inc_index azim_index data (rows traj))
        (\<lambda>rs. if rs = [] then Inr None else Inr (Some (traj\<lparr>rows := rs\<rparr>)))))))"

text \<open>
  The filter in the words of the specification: a row is kept when its measured depth and
  its azimuth are present and not zero and its inclination is present, and the row that
  is kept carries the depth times the factor of the depth unit, the inclination as it is,
  and the azimuth modulo 360.
\<close>

definition row_is_kept :: "nat \<Rightarrow> nat \<Rightarrow> nat \<Rightarrow> cell list \<Rightarrow> bool" where
  "row_is_kept mi ii ai vs = (truthy (vs ! mi) \<and> vs ! ii \<noteq> None \<and> truthy (vs ! ai))"

definition kept_row :: "pyfloat \<Rightarrow> nat \<Rightarrow> nat \<Rightarrow> nat \<Rightarrow> cell list \<Rightarrow> TrajectoryIngestionRow" where
  "kept_row f mi ii ai vs =
     \<lparr>TrajectoryIngestionRow.measured_depth = py_mul (the (vs ! mi)) f,
      inclination = the (vs ! ii),
      azimuth = py_mod (the (vs ! ai)) 360\<rparr>"

definition rows_of :: "'a TrajectoryIngestion option \<Rightarrow> TrajectoryIngestionRow list" where
  "rows_of res = (case res of None \<Rightarrow> [] | Some traj \<Rightarrow> rows traj)"

text \<open>
  The depth column that \<open>main\<close> passes for every trajectory (its factor is the default of
  \<open>DistanceUnit\<close>), and a sequence with the three columns \<open>main\<close> asks for, used for the
  examples below.
\<close>

definition main_md_column :: DepthIndexColumn where
  "main_md_column =
     \<lparr>column_external_id = ''MeasuredDepth'',
      DepthIndexColumn.unit = \<lparr>DistanceUnit.unit = foot, factor = DistanceUnit_default_factor\<rparr>,
      DepthIndexColumn.type = ''measured depth''\<rparr>"

definition example_sequence :: Sequence where
  "example_sequence =
     \<lparr>Sequence.external_id = ''s1'',
      columns =
        [\<lparr>externalId = Some ''MeasuredDepth'', Column.description = None,
          Column.metadata = None\<rparr>,
         \<lparr>externalId = Some ''Inclination'', Column.description = None,
          Column.metadata = None\<rparr>,
         \<lparr>externalId = Some ''Azimuth'', Column.description = None,
          Column.metadata = None\<rparr>]\<rparr>"

section \<open>Well and wellbore mappers\<close>

text \<open>
  \<open>wellbores_by_parent_external_id\<close> is a \<open>defaultdict\<close> of lists: every wellbore is
  appended to the list of its parent, and a key that was never written reads as the empty
  list.
\<close>

definition wellbores_by_parent_external_id :: "Asset list \<Rightarrow> string option \<Rightarrow> Asset list" where
  "wellbores_by_parent_external_id wellbore_assets =
     fold (\<lambda>wb d. d(parent_external_id wb := d (parent_external_id wb) @ [wb]))
       wellbore_assets (\<lambda>k. [])"

text \<open>
  Both mappers end with one \<open>ingest\<close> call of the destination client for every chunk of
  1000 wells and then for every chunk of 1000 wellbores.  The model returns the
  arguments of these calls, in order.
\<close>

definition ingest_calls ::
  "'w list \<Rightarrow> 'b list \<Rightarrow> py_error + ('w list list \<times> 'b list list)" where
  "ingest_calls well_ingestions wellbore_ingestions =
     bind_err (chunks well_ingestions 1000) (\<lambda>wi_chunks.
     bind_err (chunks wellbore_ingestions 1000) (\<lambda>wb_chunks.
       Inr (wi_chunks, wb_chunks)))"

subsection \<open>The first source system (\<open>01-wells-and-wellbores.py\<close>)\<close>

definition get_water_depth :: "Asset \<Rightarrow> Distance option" where
  "get_water_depth well_asset = None"

text \<open>The statements of the loop over the wells up to \<open>well_ingestions.append(wi)\<close>.  The
  call of \<open>WellIngestion\<close> does not pass \<open>spud_date\<close>, an optional field.\<close>

definition osdu_well_ingestion :: "Asset \<Rightarrow> Asset list \<Rightarrow> py_error + 'dt WellIngestion" where
  "osdu_well_ingestion well_asset wellbores =
     (let first_wellbore = (case wellbores of [] \<Rightarrow> None | wb # _ \<Rightarrow> Some wb);
          operator' = (case first_wellbore of
                         None \<Rightarrow> None
                       | Some wb \<Rightarrow> Asset.metadata wb ''CurrentOperator'')
      in
      bind_err (dict_item (Asset.metadata well_asset) ''Wgs84SpatialLocationX'') (\<lambda>lon.
      bind_err (float_of_str lon) (\<lambda>longitude.
      bind_err (dict_item (Asset.metadata well_asset) ''Wgs84SpatialLocationY'') (\<lambda>lat.
      bind_err (float_of_str lat) (\<lambda>latitude.
        let well_name = clean_name (Asset.name well_asset) in
        Inr \<lparr>WellIngestion.name = well_name,
             WellIngestion.description = Some well_name,
             WellIngestion.matching_id = well_name,
             WellIngestion.source =
               \<lparr>asset_external_id = Asset.external_id well_asset,
                AssetSource.source_name = ''OSDU''\<rparr>,
             wellhead = \<lparr>x = longitude, y = latitude, crs = ''EPSG:4326''\<rparr>,
             WellIngestion.type = None,
             water_depth = get_water_depth well_asset,
             operator = operator',
             spud_date = None\<rparr>)))))"

text \<open>
  The body of the loop over the wellbores of a well.  The local variable \<open>datum\<close> of the
  function is the third argument: \<open>None\<close> while it is unbound, \<open>Some d\<close> once it has been
  assigned.  The body returns the record to append and the variable afterwards; reading the
  unbound variable raises \<open>UnboundLocalError\<close>.
\<close>

definition osdu_wellbore_ingestion ::
  "Asset \<Rightarrow> Asset \<Rightarrow> Datum option \<Rightarrow> py_error + (Datum WellboreIngestion \<times> Datum option)" where
  "osdu_wellbore_ingestion well_asset wellbore datum_var =
     (let datum_elevation = Asset.metadata wellbore ''VerticalMeasurement_Measured_From'';
          datum_reference = Asset.metadata wellbore ''VerticalMeasurementType_Measured_From''
      in
      bind_err (if datum_elevation \<noteq> None \<and> datum_reference \<noteq> None
                then bind_err (float_of_str (the datum_elevation)) (\<lambda>v.
                       Inr (Some \<lparr>Datum.value = v, Datum.unit = meter,
                                  reference = the datum_reference\<rparr>))
                else Inr datum_var) (\<lambda>datum_var'.
        let wellbore_name = clean_name (Asset.name wellbore) in
        (case datum_var' of
           None \<Rightarrow> Inl (UnboundLocalError ''datum'')
         | Some d \<Rightarrow>
             Inr (\<lparr>WellboreIngestion.name = wellbore_name,
                   WellboreIngestion.description = wellbore_name,
                   WellboreIngestion.matching_id = clean_name (Asset.external_id wellbore),
                   well_asset_external_id = Asset.external_id well_asset,
                   WellboreIngestion.source =
                     \<lparr>asset_external_id = Asset.external_id wellbore,
                      AssetSource.source_name = ''OSDU''\<rparr>,
                   datum = Some d\<rparr>,
                  datum_var'))))"

fun osdu_wellbores_loop ::
  "Asset \<Rightarrow> Asset list \<Rightarrow> Datum WellboreIngestion list \<times> Datum option
     \<Rightarrow> py_error + (Datum WellboreIngestion list \<times> Datum option)" where
  "osdu_wellbores_loop well_asset [] st = Inr st"
| "osdu_wellbores_loop well_asset (wellbore # rest) (wellbore_ingestions, datum_var) =
     bind_err (osdu_wellbore_ingestion well_asset wellbore datum_var) (\<lambda>(wbi, datum_var').
       osdu_wellbores_loop well_asset rest (wellbore_ingestions @ [wbi], datum_var'))"

fun osdu_wells_loop ::
  "(string option \<Rightarrow> Asset list) \<Rightarrow> Asset list
     \<Rightarrow> 'dt WellIngestion list \<times> Datum WellboreIngestion list \<times> Datum option
     \<Rightarrow> py_error + ('dt WellIngestion list \<times> Datum WellboreIngestion list \<times> Datum option)" where
  "osdu_wells_loop by_parent [] st = Inr st"
| "osdu_wells_loop by_parent (well_asset # rest)
       (well_ingestions, wellbore_ingestions, datum_var) =
     (let wellbores = by_parent (Some (Asset.external_id well_asset)) in
      bind_err (osdu_well_ingestion well_asset wellbores) (\<lambda>wi.
      bind_err (osdu_wellbores_loop well_asset wellbores (wellbore_ingestions, datum_var))
        (\<lambda>(wellbore_ingestions', datum_var').
           osdu_wells_loop by_parent rest
             (well_ingestions @ [wi], wellbore_ingestions', datum_var'))))"

definition ingest_wells_and_wellbores_osdu ::
  "Asset list \<Rightarrow> Asset list
     \<Rightarrow> py_error + ('dt WellIngestion list list \<times> Datum WellboreIngestion list list)" where
  "ingest_wells_and_wellbores_osdu well_assets wellbore_assets =
     bind_err (osdu_wells_loop (wellbores_by_parent_external_id wellbore_assets) well_assets
                 ([], [], None))
       (\<lambda>(well_ingestions, wellbore_ingestions, datum_var).
          ingest_calls well_ingestions wellbore_ingestions)"

subsection \<open>The second source system (\<open>edm_wells.py\<close>)\<close>

text \<open>\<open>_water_depth\<close>: \<open>float(None)\<close> raises \<open>TypeError\<close>, which is caught like the
  \<open>ValueError\<close> of a text that is not a number.\<close>

definition well_water_depth :: "Asset \<Rightarrow> Distance option" where
  "well_water_depth well_asset =
     (case Asset.metadata well_asset ''WELLHEAD_DEPTH'' of
        None \<Rightarrow> None
      | Some wd \<Rightarrow>
          (case py_float wd of
             None \<Rightarrow> None
           | Some water_depth_float \<Rightarrow>
               (case Asset.metadata well_asset ''WELLHEAD_DEPTH_DSDSUNIT'' of
                  None \<Rightarrow> None
                | Some unit' \<Rightarrow>
                    (case parse_unit unit' of
                       None \<Rightarrow> None
                     | Some parsed_unit \<Rightarrow>
                         if factor parsed_unit \<noteq> None
                            \<and> factor parsed_unit \<noteq> Some (Finite 1.0)
                         then None
                         else Some \<lparr>Distance.value = water_depth_float,
                                    Distance.unit = DistanceUnit.unit parsed_unit\<rparr>))))"

text \<open>\<open>_spud_date\<close>: \<open>datetime.fromisoformat\<close> is a parameter; \<open>None\<close> is its
  \<open>ValueError\<close>.\<close>

definition well_spud_date :: "(string \<Rightarrow> 'dt option) \<Rightarrow> Asset \<Rightarrow> 'dt option" where
  "well_spud_date fromisoformat well_asset =
     (case Asset.metadata well_asset ''SPUD_DATE'' of
        None \<Rightarrow> None
      | Some sd \<Rightarrow> fromisoformat sd)"

text \<open>The dictionary comprehension \<open>{x.external_id: x for x in datums}\<close>.\<close>

definition datum_dict_of :: "Asset list \<Rightarrow> string \<rightharpoonup> Asset" where
  "datum_dict_of datums = fold (\<lambda>a d. d(Asset.external_id a \<mapsto> a)) datums Map.empty"

text \<open>The statements of the loop over the wells up to the test of the matching id.\<close>

definition edm_well_ingestion ::
  "(string \<Rightarrow> 'dt option) \<Rightarrow> Asset \<Rightarrow> py_error + 'dt WellIngestion" where
  "edm_well_ingestion fromisoformat well_asset =
     (let operator' = Asset.metadata well_asset ''WELL_OPERATOR'' in
      bind_err (dict_item (Asset.metadata well_asset) ''GEO_LONGITUDE'') (\<lambda>lon.
      bind_err (float_of_str lon) (\<lambda>longitude.
      bind_err (dict_item (Asset.metadata well_asset) ''GEO_LATITUDE'') (\<lambda>lat.
      bind_err (float_of_str lat) (\<lambda>latitude.
        let description' = Asset.metadata well_asset ''WELL_DESC'';
            well_name = clean_name (Asset.name well_asset)
        in
        Inr \<lparr>WellIngestion.name = well_name,
             WellIngestion.description = description',
             WellIngestion.matching_id = well_name,
             WellIngestion.source =
               \<lparr>asset_external_id = Asset.external_id well_asset,
                AssetSource.source_name = ''EDM''\<rparr>,
             wellhead = \<lparr>x = longitude, y = latitude, crs = ''EPSG:4326''\<rparr>,
             WellIngestion.type = None,
             water_depth = well_water_depth well_asset,
             operator = operator',
             spud_date = well_spud_date fromisoformat well_asset\<rparr>)))))"

text \<open>The body of the loop over the wellbores of a well; nothing in it raises.\<close>

definition edm_wellbore_ingestion ::
  "(string \<rightharpoonup> Asset) \<Rightarrow> Asset \<Rightarrow> Asset \<Rightarrow> Distance WellboreIngestion" where
  "edm_wellbore_ingestion datum_dict well_asset wellbore =
     (let datum' =
            (case Asset.metadata wellbore ''DRILLING_DATUM_ID_EDM'' of
               None \<Rightarrow> None
             | Some datum_key \<Rightarrow>
                 (case datum_dict (datum_key @ ''||EDMDF'') of
                    None \<Rightarrow> None
                  | Some datum_asset \<Rightarrow>
                      parse_distance (Asset.metadata datum_asset ''DATUM_ELEVATION'')
                        (Asset.metadata datum_asset ''DATUM_ELEVATION_DSDUNIT'')));
          wellbore_name = clean_name (Asset.name wellbore)
      in \<lparr>WellboreIngestion.name = wellbore_name,
          WellboreIngestion.description = wellbore_name,
          WellboreIngestion.matching_id = clean_name (Asset.external_id wellbore),
          well_asset_external_id = Asset.external_id well_asset,
          WellboreIngestion.source =
            \<lparr>asset_external_id = Asset.external_id wellbore,
             AssetSource.source_name = ''EDM''\<rparr>,
          datum = datum'\<rparr>)"

fun edm_wells_loop ::
  "(string \<Rightarrow> 'dt option) \<Rightarrow> (string \<rightharpoonup> Asset) \<Rightarrow> (string option \<Rightarrow> Asset list)
     \<Rightarrow> Asset list
     \<Rightarrow> 'dt WellIngestion list \<times> Distance WellboreIngestion list \<times> string set
     \<Rightarrow> py_error + ('dt WellIngestion list \<times> Distance WellboreIngestion list \<times> string set)" where
  "edm_wells_loop fromisoformat datum_dict by_parent [] st = Inr st"
| "edm_wells_loop fromisoformat datum_dict by_parent (well_asset # rest)
       (well_ingestions, wellbore_ingestions, well_matching_ids) =
     (let wellbores = by_parent (Some (Asset.external_id well_asset)) in
      bind_err (edm_well_ingestion fromisoformat well_asset) (\<lambda>wi.
        if WellIngestion.matching_id wi \<notin> well_matching_ids then
          edm_wells_loop fromisoformat datum_dict by_parent rest
            (well_ingestions @ [wi],
             wellbore_ingestions @ map (edm_wellbore_ingestion datum_dict well_asset) wellbores,
             insert (WellIngestion.matching_id wi) well_matching_ids)
        else
          edm_wells_loop fromisoformat datum_dict by_parent rest
            (well_ingestions, wellbore_ingestions, well_matching_ids)))"

definition ingest_wells_and_wellbores_edm ::
  "(string \<Rightarrow> 'dt option) \<Rightarrow> Asset list \<Rightarrow> Asset list \<Rightarrow> Asset list
     \<Rightarrow> py_error + ('dt WellIngestion list list \<times> Distance WellboreIngestion list list)" where
  "ingest_wells_and_wellbores_edm fromisoformat well_assets wellbore_assets datums =
     bind_err (edm_wells_loop fromisoformat (datum_dict_of datums)
                 (wellbores_by_parent_external_id wellbore_assets) well_assets ([], [], {}))
       (\<lambda>(well_ingestions, wellbore_ingestions, well_matching_ids).
          ingest_calls well_ingestions wellbore_ingestions)"

subsection \<open>Notions used to state the properties of the mappers\<close>

text \<open>The pairs of a well and one of its wellbores, in the order in which the two nested
  loops reach them.\<close>

definition processed :: "(string option \<Rightarrow> Asset list) \<Rightarrow> Asset list \<Rightarrow> (Asset \<times> Asset) list" where
  "processed by_parent well_assets =
     concat (map (\<lambda>w. map (\<lambda>wb. (w, wb)) (by_parent (Some (Asset.external_id w)))) well_assets)"

definition has_datum_keys :: "Asset \<Rightarrow> bool" where
  "has_datum_keys wellbore =
     (Asset.metadata wellbore ''VerticalMeasurement_Measured_From'' \<noteq> None
      \<and> Asset.metadata wellbore ''VerticalMeasurementType_Measured_From'' \<noteq> None)"

text \<open>The datum that the first mapper builds from the two keys of a wellbore.\<close>

definition own_datum :: "Asset \<Rightarrow> Datum" where
  "own_datum wellbore =
     \<lparr>Datum.value = the (py_float (the (Asset.metadata wellbore
                                          ''VerticalMeasurement_Measured_From''))),
      Datum.unit = meter,
      reference = the (Asset.metadata wellbore ''VerticalMeasurementType_Measured_From'')\<rparr>"

text \<open>
  \<open>carried prev ps\<close>: along the wellbores and their emitted records \<open>ps\<close>, a wellbore
  with both keys has its own datum, and a wellbore without them has the datum of the
  record emitted before it (\<open>prev\<close> for the first), which is not \<open>None\<close>.
\<close>

fun carried :: "Datum option \<Rightarrow> (Asset \<times> Datum WellboreIngestion) list \<Rightarrow> bool" where
  "carried prev [] = True"
| "carried prev ((wellbore, wbi) # rest) =
     ((if has_datum_keys wellbore then datum wbi = Some (own_datum wellbore)
       else datum wbi = prev \<and> prev \<noteq> None)
      \<and> carried (datum wbi) rest)"

text \<open>\<open>firsts key seen ws\<close>: the elements of \<open>ws\<close> whose key is neither in \<open>seen\<close> nor the
  key of an earlier element.\<close>

fun firsts :: "('a \<Rightarrow> 'k) \<Rightarrow> 'k set \<Rightarrow> 'a list \<Rightarrow> 'a list" where
  "firsts key seen [] = []"
| "firsts key seen (w # ws) =
     (if key w \<in> seen then firsts key seen ws
      else w # firsts key (insert (key w) seen) ws)"

text \<open>The datum of the record emitted last, or \<open>dv\<close> when there is none.\<close>

definition last_datum :: "Datum option \<Rightarrow> Datum WellboreIngestion list \<Rightarrow> Datum option" where
  "last_datum dv new = (if new = [] then dv else datum (last new))"

text \<open>Assets for the examples: a well of each source system with its two coordinates, and
  two wellbores of the well \<open>w1\<close>, the first with the two datum keys and the second with no
  metadata.\<close>

definition example_asset :: "string \<Rightarrow> string option \<Rightarrow> string \<Rightarrow> (string \<times> string) list \<Rightarrow> Asset" where
  "example_asset e p n m =
     \<lparr>Asset.external_id = e, parent_external_id = p, Asset.name = n,
      Asset.metadata = map_of m\<rparr>"

definition osdu_coordinates :: "(string \<times> string) list" where
  "osdu_coordinates = [(''Wgs84SpatialLocationX'', ''1.5''), (''Wgs84SpatialLocationY'', ''2'')]"

definition edm_coordinates :: "(string \<times> string) list" where
  "edm_coordinates = [(''GEO_LONGITUDE'', ''1.5''), (''GEO_LATITUDE'', ''2'')]"

definition wellbore_with_datum :: Asset where
  "wellbore_with_datum =
     example_asset ''b0'' (Some ''w1'') ''B0''
       [(''VerticalMeasurement_Measured_From'', ''25''),
        (''VerticalMeasurementType_Measured_From'', ''KB'')]"

definition wellbore_without_datum :: Asset where
  "wellbore_without_datum = example_asset ''b1'' (Some ''w1'') ''B1'' []"

text \<open>A well of the second source system has both coordinates, and \<open>float\<close> accepts
  them.\<close>

definition edm_coordinates_ok :: "Asset \<Rightarrow> bool" where
  "edm_coordinates_ok w =
     (\<exists>lon lat. Asset.metadata w ''GEO_LONGITUDE'' = Some lon \<and> py_float lon \<noteq> None
        \<and> Asset.metadata w ''GEO_LATITUDE'' = Some lat \<and> py_float lat \<noteq> None)"

section \<open>The unit parser on the documented inputs\<close>

text \<open>
  Claim C1.  \<open>parse_unit\<close> returns inch with factor 0.1 for \<open>"0.1 in"\<close>, foot with factor
  1.0 for \<open>"feet"\<close>, meter with factor 0.001 for \<open>"mm"\<close>, meter with factor exactly 1.0
  for \<open>"m rkb"\<close>, and nothing for \<open>"banana"\<close>.  The factor of \<open>"m rkb"\<close> is the default of
  the library class, taken from the specification.
\<close>

theorem parse_unit_examples:
  "parse_unit ''0.1 in'' = Some \<lparr>DistanceUnit.unit = inch, factor = Some (Finite 0.1)\<rparr>
   \<and> parse_unit ''feet'' = Some \<lparr>DistanceUnit.unit = foot, factor = Some (Finite 1.0)\<rparr>
   \<and> parse_unit ''mm'' = Some \<lparr>DistanceUnit.unit = meter, factor = Some (Finite 0.001)\<rparr>
   \<and> parse_unit ''m rkb'' = Some \<lparr>DistanceUnit.unit = meter, factor = Some (Finite 1.0)\<rparr>
   \<and> parse_unit ''banana'' = None"
  by code_simp

subsection \<open>The shape of a match\<close>

text \<open>
  Every match of the pattern splits the text into factor characters, white space and the
  unit word.  So \<open>float\<close> never rejects the text of the group \<open>factor\<close>, \<open>parse_unit\<close>
  returns nothing exactly when the text is neither special case and either the pattern
  fails or the unit word is not in the table, and a text that \<open>parse_unit\<close> accepts has no
  capital letter.
\<close>

lemma greedy_star_split:
  "(m, r) \<in> set (greedy_star p s) \<Longrightarrow> s = m @ r \<and> (\<forall>c\<in>set m. p c)"
proof -
  assume "(m, r) \<in> set (greedy_star p s)"
  then have "(m, r) \<in> (\<lambda>k. (take k s, drop k s))
                      ` set (rev [0 ..< Suc (length (takeWhile p s))])"
    by (simp add: greedy_star_def)
  then obtain k where k0: "k \<in> set (rev [0 ..< Suc (length (takeWhile p s))])"
    and mr: "(m, r) = (take k s, drop k s)" by (rule imageE)
  from k0 mr have k: "k \<le> length (takeWhile p s)" "m = take k s" "r = drop k s"
    by auto
  have "take k s = take k (takeWhile p s @ dropWhile p s)" by simp
  also have "\<dots> = take k (takeWhile p s)" using k(1) by (simp del: takeWhile_dropWhile_id)
  finally have "set m \<subseteq> set (takeWhile p s)" using k(2) by (simp add: set_take_subset)
  then have "\<forall>c\<in>set m. p c" by (auto dest: set_takeWhileD)
  with k show ?thesis by simp
qed

lemma greedy_plus_split:
  "(m, r) \<in> set (greedy_plus p s) \<Longrightarrow> s = m @ r \<and> (\<forall>c\<in>set m. p c) \<and> m \<noteq> []"
  using greedy_star_split[of m r p s] by (auto simp: greedy_plus_def)

lemma opt_char_split:
  "(m, r) \<in> set (opt_char p s) \<Longrightarrow> s = m @ r \<and> (\<forall>c\<in>set m. p c) \<and> length m \<le> 1"
  by (auto simp: opt_char_def split: list.splits if_splits)

lemma opt_int_part_split:
  "(m, r) \<in> set (opt_int_part s) \<Longrightarrow>
     s = m @ r \<and> (m = [] \<or> (\<exists>d. m = d @ ''.'' \<and> (\<forall>c\<in>set d. is_digit c)))"
proof -
  assume "(m, r) \<in> set (opt_int_part s)"
  then consider "m = []" "r = s"
    | d r' c cs where "(d, r') \<in> set (greedy_star is_digit s)" "r' = c # cs" "is_dot c"
        "m = d @ [c]" "r = cs"
    by (auto simp: opt_int_part_def split: list.splits if_splits)
  then show ?thesis
  proof cases
    case 1
    then show ?thesis by simp
  next
    case 2
    from greedy_star_split[OF 2(1)] 2 show ?thesis by (auto simp: is_dot_def)
  qed
qed

lemma factor_matches_split:
  "(m, r) \<in> set (factor_matches s) \<Longrightarrow>
     s = m @ r \<and>
     (\<exists>sg a b. m = sg @ a @ b \<and> (sg = [] \<or> sg = ''+'' \<or> sg = ''-'')
        \<and> (a = [] \<or> (\<exists>d. a = d @ ''.'' \<and> (\<forall>c\<in>set d. is_digit c)))
        \<and> b \<noteq> [] \<and> (\<forall>c\<in>set b. is_digit c))"
proof -
  assume "(m, r) \<in> set (factor_matches s)"
  then obtain sg r1 a r2 b where parts:
    "(sg, r1) \<in> set (opt_char is_sign s)" "(a, r2) \<in> set (opt_int_part r1)"
    "(b, r) \<in> set (greedy_plus is_digit r2)" "m = sg @ a @ b"
    by (auto simp: factor_matches_def)
  from opt_char_split[OF parts(1)] have sg: "s = sg @ r1" "\<forall>c\<in>set sg. is_sign c" "length sg \<le> 1"
    by auto
  have sg': "sg = [] \<or> sg = ''+'' \<or> sg = ''-''"
  proof (cases sg)
    case Nil
    then show ?thesis by simp
  next
    case (Cons c cs)
    with sg(3) have "cs = []" by simp
    with Cons sg(2) show ?thesis by (auto simp: is_sign_def)
  qed
  from opt_int_part_split[OF parts(2)] greedy_plus_split[OF parts(3)] sg(1) sg' parts(4)
  show ?thesis by auto
qed

lemma unit_regex_matches_split:
  "(f, u) \<in> set (unit_regex_matches s) \<Longrightarrow>
     \<exists>pre w. s = pre @ w @ u \<and> (\<forall>c\<in>set pre. factor_char c) \<and> (\<forall>c\<in>set w. is_space c)
       \<and> (\<forall>m. f = Some m \<longrightarrow> (m, w @ u) \<in> set (factor_matches s))"
proof -
  assume "(f, u) \<in> set (unit_regex_matches s)"
  then obtain r1 w r2 where parts: "(f, r1) \<in> set (opt_factor s)"
    "(w, r2) \<in> set (greedy_star is_space r1)" "(u, []) \<in> set (greedy_plus is_word r2)"
    by (auto simp: unit_regex_matches_def split: if_splits)
  from greedy_star_split[OF parts(2)] have w: "r1 = w @ r2" "\<forall>c\<in>set w. is_space c" by auto
  from greedy_plus_split[OF parts(3)] have u: "r2 = u" by simp
  from parts(1) consider "f = None" "r1 = s" | m where "f = Some m" "(m, r1) \<in> set (factor_matches s)"
    by (auto simp: opt_factor_def)
  then show ?thesis
  proof cases
    case 1
    with w u have "s = [] @ w @ u" by simp
    with w 1 show ?thesis by (metis empty_iff list.set(1) option.distinct(1))
  next
    case 2
    from factor_matches_split[OF 2(2)] have m: "s = m @ r1" "\<forall>c\<in>set m. factor_char c"
      by (auto simp: factor_char_def is_dot_def is_sign_def)
    with w u 2 show ?thesis by auto
  qed
qed

lemma lower_char_id: "c \<notin> set ''ABCDEFGHIJKLMNOPQRSTUVWXYZ'' \<Longrightarrow> lower_char c = c"
proof -
  assume c: "c \<notin> set ''ABCDEFGHIJKLMNOPQRSTUVWXYZ''"
  have len: "length ''ABCDEFGHIJKLMNOPQRSTUVWXYZ'' = length ''abcdefghijklmnopqrstuvwxyz''"
    by simp
  have "map_of (zip ''ABCDEFGHIJKLMNOPQRSTUVWXYZ'' ''abcdefghijklmnopqrstuvwxyz'') c = None"
    using map_of_zip_is_None[OF len, of c] c by blast
  then show ?thesis by (simp only: lower_char_def option.case)
qed

lemma lower_id: "set s \<inter> set ''ABCDEFGHIJKLMNOPQRSTUVWXYZ'' = {} \<Longrightarrow> lower s = s"
  unfolding lower_def by (rule map_idI) (auto intro: lower_char_id)

lemma lower_char_fixed: "factor_char c \<or> is_space c \<Longrightarrow> lower_char c = c"
  by (rule lower_char_id)
     (auto simp: factor_char_def is_sign_def is_digit_def is_dot_def is_space_def)

lemma unit_map_keys:
  "unit_map tok = Some k \<Longrightarrow>
     tok \<in> {''m'', ''meter'', ''meters'', ''in'', ''inch'', ''inches'', ''feet'', ''foot'', ''ft''}"
  by (simp add: unit_map_def unit_map_by_unit_def split: if_splits)

lemma unit_map_lower: "unit_map tok = Some k \<Longrightarrow> lower tok = tok"
  using unit_map_keys[of tok k] by (auto intro!: lower_id)

lemma parse_unit_lower: "parse_unit u = Some pu \<Longrightarrow> lower u = u"
proof -
  assume pu: "parse_unit u = Some pu"
  show ?thesis
  proof (cases "u = ''mm'' \<or> u = ''m rkb''")
    case True
    then show ?thesis by (auto intro!: lower_id)
  next
    case False
    with pu obtain f tok k where m: "unit_regex_fullmatch u = Some (f, tok)"
      and k: "unit_map tok = Some k"
      by (auto simp: parse_unit_def split: option.splits if_splits)
    from m have "(f, tok) \<in> set (unit_regex_matches u)"
      by (auto simp: unit_regex_fullmatch_def split: list.splits)
    from unit_regex_matches_split[OF this] obtain pre w where s: "u = pre @ w @ tok"
      "\<forall>c\<in>set pre. factor_char c" "\<forall>c\<in>set w. is_space c" by blast
    have "map lower_char pre = pre" "map lower_char w = w"
      using s(2,3) lower_char_fixed by (simp_all add: map_idI)
    with unit_map_lower[OF k] s(1) show ?thesis by (simp add: lower_def)
  qed
qed


lemma strip_id:
  "s \<noteq> [] \<Longrightarrow> \<not> is_float_space (hd s) \<Longrightarrow> \<not> is_float_space (last s) \<Longrightarrow> strip s = s"
proof -
  assume s: "s \<noteq> []" and h: "\<not> is_float_space (hd s)" and l: "\<not> is_float_space (last s)"
  from s h have a: "dropWhile is_float_space s = s" by (cases s) auto
  from s l have "\<not> is_float_space (hd (rev s))" by (simp add: hd_rev)
  with s have "dropWhile is_float_space (rev s) = rev s" by (cases "rev s") auto
  with a show ?thesis by (simp add: strip_def)
qed

lemma underscores_ok_none:
  "CHR ''_'' \<notin> set s \<Longrightarrow> prev \<noteq> CHR ''_'' \<Longrightarrow> underscores_ok prev s"
  by (induction s arbitrary: prev) auto

lemma digits_not_special:
  "is_digit c \<Longrightarrow> c \<noteq> CHR ''_'' \<and> \<not> is_float_space c \<and> \<not> is_dot c \<and> c \<noteq> CHR ''-''
     \<and> c \<noteq> CHR ''+'' \<and> c \<noteq> CHR ''i'' \<and> c \<noteq> CHR ''n'' \<and> c \<noteq> CHR ''I'' \<and> c \<noteq> CHR ''N''"
  by (auto simp: is_digit_def is_float_space_def is_dot_def)

lemma parse_decimal_digits:
  assumes "b \<noteq> []" "\<forall>c\<in>set b. is_digit c"
  shows "parse_decimal b \<noteq> None"
proof -
  have t: "takeWhile is_digit b = b" using assms(2) by simp
  have d: "dropWhile is_digit b = []" using assms(2) by simp
  show ?thesis
    unfolding parse_decimal_def Let_def t d using assms(1) by (simp add: parse_exponent_def)
qed

lemma parse_decimal_point:
  assumes "\<forall>c\<in>set d. is_digit c" "b \<noteq> []" "\<forall>c\<in>set b. is_digit c"
  shows "parse_decimal (d @ ''.'' @ b) \<noteq> None"
proof -
  have nd: "\<not> is_digit (CHR ''.'')" by (simp add: is_digit_def)
  from assms(1) nd have t: "takeWhile is_digit (d @ ''.'' @ b) = d"
    by (simp add: takeWhile_append2)
  from assms(1) nd have dr: "dropWhile is_digit (d @ ''.'' @ b) = CHR ''.'' # b"
    by (simp add: dropWhile_append2)
  have tb: "takeWhile is_digit b = b" using assms(3) by simp
  have db: "dropWhile is_digit b = []" using assms(3) by simp
  show ?thesis
    unfolding parse_decimal_def Let_def t dr list.case is_dot_def if_True tb db
    using assms(2) by (simp add: parse_exponent_def)
qed

lemma factor_text_parses:
  assumes "(a = [] \<or> (\<exists>d. a = d @ ''.'' \<and> (\<forall>c\<in>set d. is_digit c)))"
    and "b \<noteq> []" "\<forall>c\<in>set b. is_digit c"
    and "sg = [] \<or> sg = ''+'' \<or> sg = ''-''"
  shows "py_float (sg @ a @ b) \<noteq> None"
proof -
  let ?body = "a @ b"
  from assms(1,3) have chars: "\<forall>c\<in>set ?body. is_digit c \<or> is_dot c"
    by (auto simp: is_dot_def)
  have body_ne: "?body \<noteq> []" using assms(2) by simp
  have special: "\<forall>c\<in>set ?body. c \<noteq> CHR ''_'' \<and> \<not> is_float_space c \<and> c \<noteq> CHR ''-''
      \<and> c \<noteq> CHR ''+'' \<and> c \<noteq> CHR ''i'' \<and> c \<noteq> CHR ''n'' \<and> c \<noteq> CHR ''I'' \<and> c \<noteq> CHR ''N''"
    using chars digits_not_special by (auto simp: is_dot_def is_float_space_def)
  have sg_special: "\<forall>c\<in>set sg. c \<noteq> CHR ''_'' \<and> \<not> is_float_space c"
    using assms(4) by (auto simp: is_float_space_def)
  let ?m = "sg @ a @ b"
  have m_ne: "?m \<noteq> []" using body_ne by simp
  have "hd ?m \<in> set ?m" using m_ne by (rule hd_in_set)
  then have h: "\<not> is_float_space (hd ?m)" using special sg_special by auto
  have "last ?m = last b" using assms(2) by simp
  moreover have "last b \<in> set b" using assms(2) by simp
  ultimately have l: "\<not> is_float_space (last ?m)"
    using assms(3) digits_not_special by metis
  have st: "strip ?m = ?m" by (rule strip_id[OF m_ne h l])
  have nu: "CHR ''_'' \<notin> set ?m" using special sg_special by auto
  then have uo: "underscores_ok (CHR 0x00) ?m" by (rule underscores_ok_none) simp
  from nu have "\<forall>c\<in>set ?m. c \<noteq> CHR ''_''" by blast
  then have fl: "filter (\<lambda>c. c \<noteq> CHR ''_'') ?m = ?m" by (simp only: filter_id_conv)
  obtain c cs where body: "?body = c # cs" using body_ne by (cases ?body) auto
  with special have c: "c \<noteq> CHR ''-''" "c \<noteq> CHR ''+''" "c \<noteq> CHR ''i''" "c \<noteq> CHR ''n''"
    "c \<noteq> CHR ''I''" "c \<noteq> CHR ''N''"
    by (metis list.set_intros(1))+
  have "\<exists>neg. split_sign ?m = (neg, ?body)"
    using assms(4) body c by (auto simp: split_sign_def)
  then obtain neg where ss: "split_sign ?m = (neg, ?body)" by blast
  have lc: "lower_char c \<noteq> CHR ''i''" "lower_char c \<noteq> CHR ''n''"
    using c by (auto simp: lower_char_def split: option.splits dest!: map_of_SomeD)
  have li: "lower ?body \<noteq> ''inf''" "lower ?body \<noteq> ''infinity''" "lower ?body \<noteq> ''nan''"
    using lc by (simp_all add: body lower_def)
  have pd: "parse_decimal ?body \<noteq> None"
    using assms(1) parse_decimal_digits[OF assms(2,3)] parse_decimal_point[OF _ assms(2,3)]
    by auto
  show ?thesis
    unfolding py_float_def Let_def st fl ss using uo li pd by auto
qed

lemma factor_match_parses:
  "(m, r) \<in> set (factor_matches s) \<Longrightarrow> py_float m \<noteq> None"
  using factor_matches_split[of m r s] factor_text_parses by blast

lemma parse_unit_None_iff:
  "(parse_unit u = None)
     = (u \<noteq> ''mm'' \<and> u \<noteq> ''m rkb''
        \<and> (case unit_regex_fullmatch u of
              None \<Rightarrow> True
            | Some (factor_match, unit_match) \<Rightarrow> unit_map unit_match = None))"
proof (cases "unit_regex_fullmatch u")
  case None
  then show ?thesis by (simp add: parse_unit_def)
next
  case (Some g)
  obtain f tok where g: "g = (f, tok)" by (cases g)
  from Some g have "(f, tok) \<in> set (unit_regex_matches u)"
    by (auto simp: unit_regex_fullmatch_def split: list.splits)
  from unit_regex_matches_split[OF this] have "\<forall>m. f = Some m \<longrightarrow> py_float m \<noteq> None"
    using factor_match_parses by blast
  then show ?thesis
    using Some g by (auto simp: parse_unit_def split: option.splits)
qed

section \<open>The distance resolver\<close>

lemma parse_unit_factor: "parse_unit u = Some pu \<Longrightarrow> factor pu \<noteq> None"
  by (auto simp: parse_unit_def DistanceUnit_default_factor_def
           split: if_splits option.splits prod.splits)

text \<open>
  Claim C2.  \<open>parse_distance\<close> returns nothing exactly when the value text or the unit
  text is missing, or \<open>float\<close> rejects the value text, or \<open>parse_unit\<close> rejects the unit
  text, or the factor of the parsed unit differs from 1.0.  Otherwise it returns the
  distance with the parsed number, to which the factor is not applied, and the unit of the
  parsed unit: 12.5 foot for \<open>("12.5", "ft")\<close>, nothing for \<open>("12.5", "mm")\<close>.
\<close>

theorem parse_distance_null_iff:
  "(parse_distance v u = None) =
     (v = None \<or> u = None
      \<or> (\<exists>vs. v = Some vs \<and> py_float vs = None)
      \<or> (\<exists>us. u = Some us \<and> parse_unit us = None)
      \<or> (\<exists>us pu. u = Some us \<and> parse_unit us = Some pu \<and> factor pu \<noteq> Some (Finite 1.0)))
   \<and> (\<forall>vs us fv pu.
         v = Some vs \<and> u = Some us \<and> py_float vs = Some fv \<and> parse_unit us = Some pu
           \<and> factor pu = Some (Finite 1.0)
         \<longrightarrow> parse_distance v u
               = Some \<lparr>Distance.value = fv, Distance.unit = DistanceUnit.unit pu\<rparr>)
   \<and> parse_distance (Some ''12.5'') (Some ''ft'')
       = Some \<lparr>Distance.value = Finite 12.5, Distance.unit = foot\<rparr>
   \<and> parse_distance (Some ''12.5'') (Some ''mm'') = None"
proof (intro conjI)
  show "(parse_distance v u = None) =
     (v = None \<or> u = None
      \<or> (\<exists>vs. v = Some vs \<and> py_float vs = None)
      \<or> (\<exists>us. u = Some us \<and> parse_unit us = None)
      \<or> (\<exists>us pu. u = Some us \<and> parse_unit us = Some pu \<and> factor pu \<noteq> Some (Finite 1.0)))"
    using parse_unit_factor
    by (cases v; cases u) (auto simp: parse_distance_def split: option.splits)
  show "\<forall>vs us fv pu.
         v = Some vs \<and> u = Some us \<and> py_float vs = Some fv \<and> parse_unit us = Some pu
           \<and> factor pu = Some (Finite 1.0)
         \<longrightarrow> parse_distance v u
               = Some \<lparr>Distance.value = fv, Distance.unit = DistanceUnit.unit pu\<rparr>"
    by (auto simp: parse_distance_def)
  show "parse_distance (Some ''12.5'') (Some ''ft'')
       = Some \<lparr>Distance.value = Finite 12.5, Distance.unit = foot\<rparr>"
    by code_simp
  show "parse_distance (Some ''12.5'') (Some ''mm'') = None"
    by code_simp
qed

lemma py_float_12_5: "py_float ''12.5'' = Some (Finite 12.5)"
  by code_simp

lemma parse_unit_ft: "parse_unit ''ft'' = Some \<lparr>DistanceUnit.unit = foot, factor = Some (Finite 1.0)\<rparr>"
  by code_simp

theorem parse_distance_null_iff_witness:
  "parse_distance (Some ''12.5'') (Some ''ft'') \<noteq> None
   \<and> parse_distance (Some ''12.5'') (Some ''ft'')
       = Some \<lparr>Distance.value = Finite 12.5, Distance.unit = foot\<rparr>
   \<and> parse_distance None (Some ''ft'') = None
   \<and> parse_distance (Some ''abc'') (Some ''ft'') = None"
proof -
  have a: "parse_distance (Some ''12.5'') (Some ''ft'')
       = Some \<lparr>Distance.value = Finite 12.5, Distance.unit = foot\<rparr>"
    using parse_distance_null_iff[of "Some ''12.5''" "Some ''ft''"]
      py_float_12_5 parse_unit_ft by simp
  have b: "parse_distance None (Some ''ft'') = None"
    using parse_distance_null_iff[of None "Some ''ft''"] by simp
  have c: "py_float ''abc'' = None" by code_simp
  have d: "parse_distance (Some ''abc'') (Some ''ft'') = None"
    using parse_distance_null_iff[of "Some ''abc''" "Some ''ft''"] c by simp
  from a b d show ?thesis by simp
qed

section \<open>The name cleaner\<close>

lemma occurs_iff: "occurs pat s = (\<exists>p q. s = p @ pat @ q)"
proof (induction s)
  case Nil
  then show ?case by auto
next
  case (Cons c cs)
  show ?case
  proof
    assume "occurs pat (c # cs)"
    then consider "take (length pat) (c # cs) = pat" | "occurs pat cs" by auto
    then show "\<exists>p q. c # cs = p @ pat @ q"
    proof cases
      case 1
      then have "c # cs = [] @ pat @ drop (length pat) (c # cs)"
        by (metis append_Nil append_take_drop_id)
      then show ?thesis by blast
    next
      case 2
      then obtain p q where "cs = p @ pat @ q" using Cons.IH by blast
      then have "c # cs = (c # p) @ pat @ q" by simp
      then show ?thesis by blast
    qed
  next
    assume "\<exists>p q. c # cs = p @ pat @ q"
    then obtain p q where pq: "c # cs = p @ pat @ q" by blast
    show "occurs pat (c # cs)"
    proof (cases p)
      case Nil
      then have "take (length pat) (c # cs) = pat" using pq by simp
      then show ?thesis by simp
    next
      case (Cons a p')
      then have "cs = p' @ pat @ q" using pq by simp
      then have "occurs pat cs" using Cons.IH by blast
      then show ?thesis by simp
    qed
  qed
qed

lemma sub_spaces_no_crlf: "CHR 0x0D \<notin> set (sub_spaces s) \<and> CHR 0x0A \<notin> set (sub_spaces s)"
  by (induction s rule: sub_spaces.induct) (auto simp: is_crlfsp_def)

lemma set_sub_well: "set (sub_well s) \<subseteq> set s"
proof (induction s rule: sub_well.induct)
  case 1
  then show ?case by simp
next
  case (2 c cs)
  consider (bore) "take 8 (c # cs) = ''Wellbore''"
    | (well) "take 8 (c # cs) \<noteq> ''Wellbore''" "take 4 (c # cs) = ''Well''"
    | (none) "take 8 (c # cs) \<noteq> ''Wellbore''" "take 4 (c # cs) \<noteq> ''Well''"
    by blast
  then show ?case
  proof cases
    case bore
    then have "sub_well (c # cs) = sub_well (drop 8 (c # cs))" by simp
    moreover have "set (sub_well (drop 8 (c # cs))) \<subseteq> set (drop 8 (c # cs))"
      using 2(1)[OF bore] .
    moreover have "set (drop 8 (c # cs)) \<subseteq> set (c # cs)" by (rule set_drop_subset)
    ultimately show ?thesis by (metis subset_trans)
  next
    case well
    then have "sub_well (c # cs) = sub_well (drop 4 (c # cs))" by simp
    moreover have "set (sub_well (drop 4 (c # cs))) \<subseteq> set (drop 4 (c # cs))"
      using 2(2)[OF well] .
    moreover have "set (drop 4 (c # cs)) \<subseteq> set (c # cs)" by (rule set_drop_subset)
    ultimately show ?thesis by (metis subset_trans)
  next
    case none
    then have "sub_well (c # cs) = c # sub_well cs" by auto
    moreover have "set (sub_well cs) \<subseteq> set cs" using 2(3)[OF none] .
    ultimately show ?thesis by auto
  qed
qed

lemma set_sub_trailing: "set (sub_trailing s) \<subseteq> set s"
  by (induction s) (auto dest: set_dropWhileD)

lemma length_sub_spaces: "length (sub_spaces s) \<le> length s"
proof (induction s rule: sub_spaces.induct)
  case 1
  then show ?case by simp
next
  case (2 c cs)
  have "length (dropWhile is_crlfsp cs) \<le> length cs" by (rule length_dropWhile_le)
  with 2 show ?case by (auto split: if_splits)
qed

lemma length_sub_well: "length (sub_well s) \<le> length s"
  by (induction s rule: sub_well.induct) (auto split: if_splits)

lemma length_sub_trailing: "length (sub_trailing s) \<le> length s"
proof (induction s)
  case Nil
  then show ?case by simp
next
  case (Cons c cs)
  have "length (dropWhile is_dashsp cs) \<le> length cs" by (rule length_dropWhile_le)
  with Cons show ?case by auto
qed

lemma sub_spaces_shrinks: "occurs ''  '' s \<Longrightarrow> length (sub_spaces s) < length s"
proof (induction s rule: sub_spaces.induct)
  case 1
  then show ?case by simp
next
  case (2 c cs)
  show ?case
  proof (cases "is_crlfsp c")
    case True
    have le: "length (sub_spaces (dropWhile is_crlfsp cs)) \<le> length (dropWhile is_crlfsp cs)"
      by (rule length_sub_spaces)
    have le2: "length (dropWhile is_crlfsp cs) \<le> length cs" by (rule length_dropWhile_le)
    show ?thesis
    proof (cases "dropWhile is_crlfsp cs = cs")
      case same: True
      then have "cs = [] \<or> \<not> is_crlfsp (hd cs)"
        by (metis dropWhile_eq_Nil_conv hd_dropWhile)
      then have "take 2 (c # cs) \<noteq> ''  ''"
        by (cases cs) (auto simp: is_crlfsp_def)
      then have "occurs ''  '' cs" using 2(3) by auto
      then have "length (sub_spaces (dropWhile is_crlfsp cs)) < length (dropWhile is_crlfsp cs)"
        using 2(1)[OF True] same by simp
      then show ?thesis using True le2 by simp
    next
      case False
      then have "length (dropWhile is_crlfsp cs) < length cs"
        by (metis le2 dropWhile_eq_self_iff le_neq_implies_less length_dropWhile_le
            takeWhile_dropWhile_id append_self_conv2 length_append add_cancel_right_left
            length_0_conv takeWhile_eq_Nil_iff)
      then show ?thesis using True le by simp
    qed
  next
    case False
    then have "c \<noteq> CHR '' ''" by (auto simp: is_crlfsp_def)
    then have "occurs ''  '' cs" using 2(3) by auto
    then show ?thesis using 2(2)[OF False] False by simp
  qed
qed


lemma occurs_Well_Cons:
  "occurs ''Well'' (c # cs) = (take 4 (c # cs) = ''Well'' \<or> occurs ''Well'' cs)"
proof -
  have "length ''Well'' = 4" by simp
  then show ?thesis by (subst occurs.simps) (simp only:)
qed

lemma sub_well_shrinks: "occurs ''Well'' s \<Longrightarrow> length (sub_well s) < length s"
proof (induction s rule: sub_well.induct)
  case 1
  then show ?case by simp
next
  case (2 c cs)
  consider (bore) "take 8 (c # cs) = ''Wellbore''"
    | (well) "take 8 (c # cs) \<noteq> ''Wellbore''" "take 4 (c # cs) = ''Well''"
    | (none) "take 8 (c # cs) \<noteq> ''Wellbore''" "take 4 (c # cs) \<noteq> ''Well''"
    by blast
  then show ?case
  proof cases
    case bore
    then have "sub_well (c # cs) = sub_well (drop 8 (c # cs))" by simp
    moreover have "length (sub_well (drop 8 (c # cs))) \<le> length (drop 8 (c # cs))"
      by (rule length_sub_well)
    ultimately show ?thesis by simp
  next
    case well
    then have "sub_well (c # cs) = sub_well (drop 4 (c # cs))" by simp
    moreover have "length (sub_well (drop 4 (c # cs))) \<le> length (drop 4 (c # cs))"
      by (rule length_sub_well)
    ultimately show ?thesis by simp
  next
    case none
    then have e: "sub_well (c # cs) = c # sub_well cs" by auto
    from none(2) 2(4) have "occurs ''Well'' cs" using occurs_Well_Cons by blast
    then have "length (sub_well cs) < length cs" using 2(3)[OF none] by simp
    then show ?thesis using e by simp
  qed
qed

lemma sub_well_id: "\<not> occurs ''Well'' s \<Longrightarrow> sub_well s = s"
proof (induction s rule: sub_well.induct)
  case 1
  then show ?case by simp
next
  case (2 c cs)
  from 2(4) have n4: "take 4 (c # cs) \<noteq> ''Well''" and nocc: "\<not> occurs ''Well'' cs"
    using occurs_Well_Cons by blast+
  have n8: "take 8 (c # cs) \<noteq> ''Wellbore''"
  proof
    assume "take 8 (c # cs) = ''Wellbore''"
    then have "take 4 (take 8 (c # cs)) = take 4 ''Wellbore''" by simp
    then have "take 4 (c # cs) = ''Well''" by (simp add: take_Cons')
    with n4 show False by simp
  qed
  from n8 n4 have "sub_well (c # cs) = c # sub_well cs" by auto
  with 2(3)[OF n8 n4] nocc show ?case by simp
qed

lemma sub_spaces_id:
  "CHR 0x0D \<notin> set s \<Longrightarrow> CHR 0x0A \<notin> set s \<Longrightarrow> \<not> occurs ''  '' s \<Longrightarrow> sub_spaces s = s"
proof (induction s rule: sub_spaces.induct)
  case 1
  then show ?case by simp
next
  case (2 c cs)
  from 2(5) have nocc: "\<not> occurs ''  '' cs" and n2: "take 2 (c # cs) \<noteq> ''  ''" by auto
  from 2(3,4) have cr: "CHR 0x0D \<notin> set cs" and lf: "CHR 0x0A \<notin> set cs"
    and c: "c \<noteq> CHR 0x0D" "c \<noteq> CHR 0x0A" by auto
  show ?case
  proof (cases "is_crlfsp c")
    case True
    with c have sp: "c = CHR '' ''" by (auto simp: is_crlfsp_def)
    have "cs = [] \<or> \<not> is_crlfsp (hd cs)"
    proof (cases cs)
      case Nil
      then show ?thesis by simp
    next
      case (Cons a as)
      with n2 sp have "a \<noteq> CHR '' ''" by auto
      moreover from Cons cr lf have "a \<noteq> CHR 0x0D" "a \<noteq> CHR 0x0A" by auto
      ultimately show ?thesis using Cons by (simp add: is_crlfsp_def)
    qed
    then have same: "dropWhile is_crlfsp cs = cs" by (cases cs) auto
    have "sub_spaces (dropWhile is_crlfsp cs) = dropWhile is_crlfsp cs"
      using 2(1)[OF True] same cr lf nocc by simp
    then show ?thesis using True sp same by simp
  next
    case False
    then show ?thesis using 2(2)[OF False] cr lf nocc by simp
  qed
qed

lemma sub_trailing_rev:
  "CHR 0x0A \<notin> set s \<Longrightarrow> sub_trailing s = rev (dropWhile is_dashsp (rev s))"
proof (induction s)
  case Nil
  then show ?case by simp
next
  case (Cons c cs)
  then have lf: "CHR 0x0A \<notin> set cs" by simp
  then have lf': "CHR 0x0A \<notin> set (dropWhile is_dashsp cs)"
    by (auto dest: set_dropWhileD)
  then have dollar: "at_dollar (dropWhile is_dashsp cs) = (dropWhile is_dashsp cs = [])"
    by (auto simp: at_dollar_def)
  have all: "(dropWhile is_dashsp cs = []) = (\<forall>a\<in>set cs. is_dashsp a)"
    by (simp add: dropWhile_eq_Nil_conv)
  show ?case
  proof (cases "is_dashsp c \<and> (\<forall>a\<in>set cs. is_dashsp a)")
    case True
    then have "sub_trailing (c # cs) = []" using dollar all by simp
    moreover from True have "dropWhile is_dashsp (rev cs @ [c]) = []"
      by (simp add: dropWhile_eq_Nil_conv)
    ultimately show ?thesis by simp
  next
    case False
    then have "sub_trailing (c # cs) = c # sub_trailing cs" using dollar all by auto
    also have "\<dots> = c # rev (dropWhile is_dashsp (rev cs))" using Cons.IH[OF lf] by simp
    also have "\<dots> = rev (dropWhile is_dashsp (rev cs @ [c]))"
      using False by (auto simp: dropWhile_append dropWhile_eq_Nil_conv)
    finally show ?thesis by simp
  qed
qed

lemma sub_trailing_idem:
  "CHR 0x0A \<notin> set s \<Longrightarrow> sub_trailing (sub_trailing s) = sub_trailing s"
proof -
  assume lf: "CHR 0x0A \<notin> set s"
  then have lf': "CHR 0x0A \<notin> set (sub_trailing s)" using set_sub_trailing by blast
  have "sub_trailing (sub_trailing s)
          = rev (dropWhile is_dashsp (rev (sub_trailing s)))"
    by (rule sub_trailing_rev[OF lf'])
  also have "\<dots> = rev (dropWhile is_dashsp (dropWhile is_dashsp (rev s)))"
    by (simp add: sub_trailing_rev[OF lf])
  also have "\<dots> = rev (dropWhile is_dashsp (rev s))"
    by (metis dropWhile_idem)
  finally show ?thesis by (simp add: sub_trailing_rev[OF lf])
qed

lemma clean_name_no_crlf:
  "CHR 0x0D \<notin> set (clean_name s) \<and> CHR 0x0A \<notin> set (clean_name s)"
  unfolding clean_name_def
  using sub_spaces_no_crlf[of s] set_sub_well[of "sub_spaces s"]
    set_sub_trailing[of "sub_well (sub_spaces s)"] by blast

lemma clean_name_trailing: "sub_trailing (clean_name s) = clean_name s"
proof -
  have "CHR 0x0A \<notin> set (sub_well (sub_spaces s))"
    using sub_spaces_no_crlf[of s] set_sub_well[of "sub_spaces s"] by blast
  then show ?thesis unfolding clean_name_def by (rule sub_trailing_idem)
qed

text \<open>
  Claim C3 says that \<open>clean_name\<close> is idempotent on every input.  Removing \<open>Well\<close> can
  bring the pieces of a new \<open>Well\<close> together, and can leave two spaces side by side:
  \<open>WeWellll\<close> is cleaned to \<open>Well\<close>, which is cleaned to the empty text.
\<close>

theorem clean_name_idempotent_counterexample:
  "clean_name (clean_name ''WeWellll'') \<noteq> clean_name ''WeWellll''"
  by code_simp

text \<open>
  Claim C3, amended.  Cleaning a cleaned name changes nothing exactly when the cleaned name
  contains neither the text \<open>Well\<close> nor two spaces side by side.
\<close>

theorem clean_name_idempotent_iff:
  "(clean_name (clean_name s) = clean_name s)
     = (\<not> occurs ''Well'' (clean_name s) \<and> \<not> occurs ''  '' (clean_name s))"
proof
  assume idem: "clean_name (clean_name s) = clean_name s"
  let ?t = "clean_name s"
  have l1: "length (sub_trailing (sub_well (sub_spaces ?t))) \<le> length (sub_well (sub_spaces ?t))"
    by (rule length_sub_trailing)
  have l2: "length (sub_well (sub_spaces ?t)) \<le> length (sub_spaces ?t)"
    by (rule length_sub_well)
  have l3: "length (sub_spaces ?t) \<le> length ?t" by (rule length_sub_spaces)
  have len: "length (sub_trailing (sub_well (sub_spaces ?t))) = length ?t"
    using idem by (simp add: clean_name_def)
  have sp: "\<not> occurs ''  '' ?t"
  proof
    assume "occurs ''  '' ?t"
    then have "length (sub_spaces ?t) < length ?t" by (rule sub_spaces_shrinks)
    with l1 l2 len show False by simp
  qed
  have id1: "sub_spaces ?t = ?t"
    using clean_name_no_crlf[of s] sp by (simp add: sub_spaces_id)
  have "\<not> occurs ''Well'' ?t"
  proof
    assume "occurs ''Well'' ?t"
    then have "length (sub_well ?t) < length ?t" by (rule sub_well_shrinks)
    with l1 len id1 show False by simp
  qed
  with sp show "\<not> occurs ''Well'' ?t \<and> \<not> occurs ''  '' ?t" by simp
next
  assume h: "\<not> occurs ''Well'' (clean_name s) \<and> \<not> occurs ''  '' (clean_name s)"
  let ?t = "clean_name s"
  have id1: "sub_spaces ?t = ?t"
    using clean_name_no_crlf[of s] h by (simp add: sub_spaces_id)
  have id2: "sub_well ?t = ?t" using h by (simp add: sub_well_id)
  have "clean_name ?t = sub_trailing (sub_well (sub_spaces ?t))" by (simp add: clean_name_def)
  also have "\<dots> = sub_trailing ?t" using id1 id2 by simp
  also have "\<dots> = ?t" by (rule clean_name_trailing)
  finally show "clean_name ?t = ?t" .
qed

theorem clean_name_idempotent_iff_witness:
  "clean_name (clean_name ''My Wellbore-1 - '') = clean_name ''My Wellbore-1 - ''
   \<and> clean_name ''My Wellbore-1 - '' = ''My -1''
   \<and> occurs ''Well'' (clean_name ''WeWellll'')"
proof -
  have a: "clean_name ''My Wellbore-1 - '' = ''My -1''" by code_simp
  have b: "\<not> occurs ''Well'' ''My -1'' \<and> \<not> occurs ''  '' ''My -1''" by code_simp
  have c: "clean_name ''WeWellll'' = ''Well''" by code_simp
  have d: "clean_name ''Well'' \<noteq> ''Well''" by code_simp
  from clean_name_idempotent_iff[of "''My Wellbore-1 - ''"] a b
  have e: "clean_name (clean_name ''My Wellbore-1 - '') = clean_name ''My Wellbore-1 - ''"
    by simp
  from clean_name_idempotent_iff[of "''WeWellll''"] c d
  have f: "occurs ''Well'' (clean_name ''WeWellll'')" by simp
  from e a f show ?thesis by simp
qed

section \<open>The measured-depth column\<close>

text \<open>
  Claim C4 says that \<open>measured_depth\<close> returns a column exactly when the identifier is, in
  any case, one of \<open>md\<close>, \<open>tdep\<close>, \<open>depth\<close>, \<open>dept\<close> and \<open>parse_unit\<close> accepts the declared
  unit.  The classifier lowers the case of the declared unit before it parses it, and
  \<open>parse_unit\<close> is case-sensitive: the column \<open>MD\<close> with the unit \<open>FT\<close> is accepted
  although \<open>parse_unit\<close> rejects \<open>FT\<close>.
\<close>

theorem measured_depth_counterexample:
  "\<not> ((measured_depth \<lparr>externalId = Some ''MD'', Column.description = None,
                          Column.metadata = Some [''unit'' \<mapsto> ''FT'']\<rparr> \<noteq> None)
       = (lower ''MD'' \<in> set [''md'', ''tdep'', ''depth'', ''dept'']
          \<and> parse_unit ''FT'' \<noteq> None))"
  by code_simp

text \<open>The half of the claim that holds: a declared unit that \<open>parse_unit\<close> accepts is
  already in lower case, so a column with such a unit and a matching identifier is
  accepted.\<close>

lemma measured_depth_if_unit_parses:
  assumes "lower (get_or (externalId column) []) \<in> {''md'', ''tdep'', ''depth'', ''dept''}"
    and "parse_unit (get_or (get_or (Column.metadata column) Map.empty ''unit'') []) \<noteq> None"
  shows "measured_depth column \<noteq> None"
proof -
  from assms(2) obtain pu where
    pu: "parse_unit (get_or (get_or (Column.metadata column) Map.empty ''unit'') []) = Some pu"
    by blast
  from parse_unit_lower[OF pu] pu assms(1) show ?thesis
    by (simp add: measured_depth_def parse_column_def Let_def)
qed

text \<open>
  Claim C4, amended.  \<open>measured_depth\<close> returns a column exactly when the identifier (the
  empty text when the key is missing) is, in any case, one of \<open>md\<close>, \<open>tdep\<close>, \<open>depth\<close>,
  \<open>dept\<close> and \<open>parse_unit\<close> accepts the declared unit in lower case (the empty text when
  the metadata or the unit is missing).  The column it returns carries the identifier as
  given, the unit parsed from the lower-case text, and the type \<open>measured depth\<close>.
\<close>

theorem measured_depth_lowercased_unit:
  "(measured_depth column \<noteq> None)
     = (lower (get_or (externalId column) []) \<in> {''md'', ''tdep'', ''depth'', ''dept''}
        \<and> parse_unit (lower (get_or (get_or (Column.metadata column) Map.empty ''unit'') []))
            \<noteq> None)
   \<and> (\<forall>d. measured_depth column = Some d \<longrightarrow>
         column_external_id d = get_or (externalId column) []
         \<and> parse_unit (lower (get_or (get_or (Column.metadata column) Map.empty ''unit'') []))
             = Some (DepthIndexColumn.unit d)
         \<and> DepthIndexColumn.type d = ''measured depth'')"
  by (auto simp: measured_depth_def parse_column_def Let_def split: option.splits)

theorem measured_depth_lowercased_unit_witness:
  "measured_depth \<lparr>externalId = Some ''MD'', Column.description = None,
                    Column.metadata = Some [''unit'' \<mapsto> ''FT'']\<rparr>
     = Some \<lparr>column_external_id = ''MD'',
             DepthIndexColumn.unit = \<lparr>DistanceUnit.unit = foot, factor = Some (Finite 1)\<rparr>,
             DepthIndexColumn.type = ''measured depth''\<rparr>"
proof -
  let ?c = "\<lparr>externalId = Some ''MD'', Column.description = None,
                    Column.metadata = Some [''unit'' \<mapsto> ''FT'']\<rparr>"
  have l1: "lower ''MD'' = ''md''" by code_simp
  have l2: "lower ''FT'' = ''ft''" by code_simp
  have pu: "parse_unit ''ft'' = Some \<lparr>DistanceUnit.unit = foot, factor = Some (Finite 1)\<rparr>"
    by code_simp
  from measured_depth_lowercased_unit[of ?c] l1 l2 pu
  have ne: "measured_depth ?c \<noteq> None" by (simp add: get_or_def)
  then obtain d where d: "measured_depth ?c = Some d" by blast
  from measured_depth_lowercased_unit[of ?c] d l2 pu
  have "column_external_id d = ''MD''"
    and "DepthIndexColumn.unit d = \<lparr>DistanceUnit.unit = foot, factor = Some (Finite 1)\<rparr>"
    and "DepthIndexColumn.type d = ''measured depth''"
    by (simp_all add: get_or_def)
  then have "d = \<lparr>column_external_id = ''MD'',
             DepthIndexColumn.unit = \<lparr>DistanceUnit.unit = foot, factor = Some (Finite 1)\<rparr>,
             DepthIndexColumn.type = ''measured depth''\<rparr>" by simp
  with d show ?thesis by simp
qed

section \<open>Chunking\<close>

lemma chunks_from_concat: "0 < n \<Longrightarrow> concat (chunks_from lst n i) = drop i lst"
proof (induction lst n i rule: chunks_from.induct)
  case (1 lst n i)
  show ?case
  proof (cases "i < length lst")
    case True
    have "concat (chunks_from lst n i) = take n (drop i lst) @ concat (chunks_from lst n (i + n))"
      using True 1(2) by (subst chunks_from.simps) simp
    also have "\<dots> = take n (drop i lst) @ drop (i + n) lst"
      using 1 True by simp
    also have "\<dots> = drop i lst"
      by (metis add.commute append_take_drop_id drop_drop)
    finally show ?thesis .
  next
    case False
    then show ?thesis by (subst chunks_from.simps) simp
  qed
qed

lemma chunks_from_length:
  "0 < n \<Longrightarrow> Suc k < length (chunks_from lst n i) \<Longrightarrow> length (chunks_from lst n i ! k) = n"
proof (induction lst n i arbitrary: k rule: chunks_from.induct)
  case (1 lst n i)
  have lt: "i < length lst"
    using 1(3) by (subst (asm) chunks_from.simps) (auto split: if_splits)
  have unf: "chunks_from lst n i = take n (drop i lst) # chunks_from lst n (i + n)"
    using lt 1(2) by (subst chunks_from.simps) simp
  show ?case
  proof (cases k)
    case 0
    have "chunks_from lst n (i + n) \<noteq> []" using 1(3) unf 0 by auto
    then have "i + n < length lst"
      by (subst (asm) chunks_from.simps) (auto split: if_splits)
    then show ?thesis using unf 0 by simp
  next
    case (Suc j)
    then have "Suc j < length (chunks_from lst n (i + n))" using 1(3) unf by simp
    then have "length (chunks_from lst n (i + n) ! j) = n"
      using 1(1)[of j] lt 1(2) by simp
    then show ?thesis using unf Suc by simp
  qed
qed

lemma chunks_from_nth:
  "0 < n \<Longrightarrow> k < length (chunks_from lst n i) \<Longrightarrow>
     chunks_from lst n i ! k = take n (drop (i + k * n) lst) \<and> i + k * n < length lst"
proof (induction lst n i arbitrary: k rule: chunks_from.induct)
  case (1 lst n i)
  have lt: "i < length lst"
    using 1(3) by (subst (asm) chunks_from.simps) (auto split: if_splits)
  have unf: "chunks_from lst n i = take n (drop i lst) # chunks_from lst n (i + n)"
    using lt 1(2) by (subst chunks_from.simps) simp
  show ?case
  proof (cases k)
    case 0
    then show ?thesis using unf lt by simp
  next
    case (Suc j)
    then have "j < length (chunks_from lst n (i + n))" using 1(3) unf by simp
    then have "chunks_from lst n (i + n) ! j = take n (drop (i + n + j * n) lst)
               \<and> i + n + j * n < length lst"
      using 1(1)[of j] lt 1(2) by simp
    then show ?thesis using unf Suc by (simp add: add.assoc add.commute)
  qed
qed

text \<open>
  Claim C7.  For every list and every chunk size \<open>n \<ge> 1\<close>, \<open>chunks\<close> returns, without
  raising, contiguous groups (the \<open>k\<close>-th group is the slice that starts at \<open>k * n\<close>) whose
  concatenation in order is the list; no group is empty and every group but the last has
  exactly \<open>n\<close> elements.
\<close>

theorem chunks_partition:
  assumes "1 \<le> n"
  shows "\<exists>cs. chunks lst n = Inr cs \<and> concat cs = lst
           \<and> (\<forall>k. k < length cs \<longrightarrow> cs ! k = take (nat n) (drop (k * nat n) lst) \<and> cs ! k \<noteq> [])
           \<and> (\<forall>k. Suc k < length cs \<longrightarrow> length (cs ! k) = nat n)"
proof -
  have n: "0 < nat n" using assms by simp
  have "chunks lst n = Inr (chunks_from lst (nat n) 0)"
    using assms by (simp add: chunks_def)
  moreover have "concat (chunks_from lst (nat n) 0) = lst"
    using chunks_from_concat[OF n, of lst 0] by simp
  moreover have "\<forall>k. k < length (chunks_from lst (nat n) 0) \<longrightarrow>
       chunks_from lst (nat n) 0 ! k = take (nat n) (drop (k * nat n) lst)
       \<and> chunks_from lst (nat n) 0 ! k \<noteq> []"
  proof (intro allI impI)
    fix k assume k: "k < length (chunks_from lst (nat n) 0)"
    from chunks_from_nth[OF n k]
    have a: "chunks_from lst (nat n) 0 ! k = take (nat n) (drop (k * nat n) lst)"
      and b: "k * nat n < length lst" by simp_all
    from b n have "take (nat n) (drop (k * nat n) lst) \<noteq> []" by simp
    with a show "chunks_from lst (nat n) 0 ! k = take (nat n) (drop (k * nat n) lst)
       \<and> chunks_from lst (nat n) 0 ! k \<noteq> []" by simp
  qed
  moreover have "\<forall>k. Suc k < length (chunks_from lst (nat n) 0) \<longrightarrow>
       length (chunks_from lst (nat n) 0 ! k) = nat n"
    using chunks_from_length[OF n] by blast
  ultimately show ?thesis by blast
qed

theorem chunks_partition_witness:
  "chunks [1, 2, 3, 4, 5 :: nat] 2 = Inr [[1, 2], [3, 4], [5]]
   \<and> concat [[1, 2], [3, 4], [5 :: nat]] = [1, 2, 3, 4, 5]"
proof -
  have h: "(1::int) \<le> 2" by simp
  have e: "chunks [1, 2, 3, 4, 5 :: nat] 2 = Inr [[1, 2], [3, 4], [5]]" by code_simp
  from chunks_partition[OF h, of "[1, 2, 3, 4, 5 :: nat]"] e show ?thesis by simp
qed

section \<open>The trajectory mapper\<close>

lemma trajectory_row_eq:
  assumes "mi < length vs" "ii < length vs" "ai < length vs"
    and "factor (DepthIndexColumn.unit mdc) = Some f"
  shows "trajectory_row mdc mi ii ai vs
           = Inr (if row_is_kept mi ii ai vs then Some (kept_row f mi ii ai vs) else None)"
  using assms
  by (simp add: trajectory_row_def bind_err_def list_item_def Let_def row_is_kept_def
      kept_row_def)

lemma trajectory_rows_eq:
  assumes "\<forall>(n, vs)\<in>set data. mi < length vs \<and> ii < length vs \<and> ai < length vs"
    and "factor (DepthIndexColumn.unit mdc) = Some f"
  shows "trajectory_rows mdc mi ii ai data acc
           = Inr (acc @ map (\<lambda>(n, vs). kept_row f mi ii ai vs)
                          (filter (\<lambda>(n, vs). row_is_kept mi ii ai vs) data))"
  using assms
proof (induction data arbitrary: acc)
  case Nil
  then show ?case by simp
next
  case (Cons r data)
  obtain n vs where r: "r = (n, vs)" by (cases r)
  from Cons.prems r have len: "mi < length vs" "ii < length vs" "ai < length vs" by auto
  from Cons.prems have rest: "\<forall>(n, vs)\<in>set data. mi < length vs \<and> ii < length vs \<and> ai < length vs"
    by simp
  show ?case
    using Cons.IH[OF rest Cons.prems(2)] r
    by (simp add: trajectory_row_eq[OF len Cons.prems(2)] bind_err_def)
qed

lemma py_mod_370: "py_mod 370 360 = 10"
  by (simp add: py_mod_def)

lemma example_columns:
  "find_index example_sequence
     ''MeasuredDepth'' = Inr 0"
  "find_index example_sequence
     ''Inclination'' = Inr 1"
  "find_index example_sequence
     ''Azimuth'' = Inr 2"
  by (simp_all add: find_index_def example_sequence_def)

text \<open>
  Claim C6.  When the three columns are found, every row has a cell for each of them and
  the depth unit has a factor, \<open>create_trajectory_ingestion\<close> returns without raising and
  the rows of its result are the kept rows of the input, in order.  The azimuth of every
  row of the result is the azimuth of an input row modulo 360 (370 becomes 10); a row in
  which the measured depth, the inclination or the azimuth is absent is not kept; and when
  no row is kept the result is \<open>None\<close>.
\<close>

theorem trajectory_rows_filtered:
  assumes cols: "find_index seq (column_external_id mdc) = Inr mi"
      "find_index seq inc_extid = Inr ii" "find_index seq azim_extid = Inr ai"
    and cells: "\<forall>(n, vs)\<in>set data. mi < length vs \<and> ii < length vs \<and> ai < length vs"
    and fac: "factor (DepthIndexColumn.unit mdc) = Some f"
  shows "\<exists>res. create_trajectory_ingestion w seq data mdc (inc_extid, iu) (azim_extid, au) sn df
                 = Inr res
      \<and> rows_of res = map (\<lambda>(n, vs). kept_row f mi ii ai vs)
                         (filter (\<lambda>(n, vs). row_is_kept mi ii ai vs) data)
      \<and> (\<forall>row\<in>set (rows_of res). \<exists>(n, vs)\<in>set data. \<exists>a.
            vs ! ai = Some a \<and> azimuth row = py_mod a 360)
      \<and> py_mod 370 360 = 10
      \<and> (\<forall>(n, vs)\<in>set data. vs ! mi = None \<or> vs ! ii = None \<or> vs ! ai = None
            \<longrightarrow> \<not> row_is_kept mi ii ai vs)
      \<and> ((\<forall>(n, vs)\<in>set data. \<not> row_is_kept mi ii ai vs) \<longrightarrow> res = None)"
proof -
  let ?kept = "filter (\<lambda>(n, vs). row_is_kept mi ii ai vs) data"
  let ?rs = "map (\<lambda>(n, vs). kept_row f mi ii ai vs) ?kept"
  let ?traj = "\<lparr>wellbore_asset_external_id = w,
                  TrajectoryIngestion.source =
                    \<lparr>sequence_external_id = Sequence.external_id seq,
                     SequenceSource.source_name = sn\<rparr>,
                  measured_depth_unit = DistanceUnit.unit (DepthIndexColumn.unit mdc),
                  inclination_unit = iu, azimuth_unit = au, is_definitive = df,
                  rows = []\<rparr>"
  let ?res = "if ?rs = [] then None else Some (?traj\<lparr>rows := ?rs\<rparr>)"
  have run: "create_trajectory_ingestion w seq data mdc (inc_extid, iu) (azim_extid, au) sn df
               = Inr ?res"
    using cols trajectory_rows_eq[OF cells fac, of "[]"]
    by (simp add: create_trajectory_ingestion_def bind_err_def)
  have rows: "rows_of ?res = ?rs" by (simp add: rows_of_def)
  have az: "\<forall>row\<in>set (rows_of ?res). \<exists>(n, vs)\<in>set data. \<exists>a.
            vs ! ai = Some a \<and> azimuth row = py_mod a 360"
  proof
    fix row assume "row \<in> set (rows_of ?res)"
    then have "row \<in> set ?rs" by (simp only: rows)
    then obtain n vs where in_data: "(n, vs) \<in> set data" and kept: "row_is_kept mi ii ai vs"
      and row: "row = kept_row f mi ii ai vs" by auto
    from kept obtain a where a: "vs ! ai = Some a"
      by (auto simp: row_is_kept_def truthy_def split: option.splits)
    then have "azimuth row = py_mod a 360" using row by (simp add: kept_row_def)
    with in_data a show "\<exists>(n, vs)\<in>set data. \<exists>a. vs ! ai = Some a \<and> azimuth row = py_mod a 360"
      by blast
  qed
  have absent: "\<forall>(n, vs)\<in>set data. vs ! mi = None \<or> vs ! ii = None \<or> vs ! ai = None
            \<longrightarrow> \<not> row_is_kept mi ii ai vs"
    by (auto simp: row_is_kept_def truthy_def)
  have none: "(\<forall>(n, vs)\<in>set data. \<not> row_is_kept mi ii ai vs) \<longrightarrow> ?res = None"
  proof
    assume "\<forall>(n, vs)\<in>set data. \<not> row_is_kept mi ii ai vs"
    then have "?kept = []" by (auto simp: filter_empty_conv)
    then show "?res = None" by simp
  qed
  show ?thesis
    apply (rule exI[of _ ?res])
    apply (intro conjI)
         apply (rule run)
        apply (rule rows)
       apply (rule az)
      apply (rule py_mod_370)
     apply (rule absent)
    apply (rule none)
    done
qed

theorem trajectory_rows_filtered_witness:
  "\<exists>res. create_trajectory_ingestion ''wb''
       example_sequence
       [(0, [Some 100, Some 1, Some 370]), (1, [Some 200, None, Some 5])]
       main_md_column
       (''Inclination'', ()) (''Azimuth'', ()) ''OSDU'' True = Inr res
     \<and> rows_of res = [\<lparr>TrajectoryIngestionRow.measured_depth = Finite 100, inclination = 1,
                        azimuth = 10\<rparr>]"
proof -
  let ?data = "[(0::int, [Some 100, Some 1, Some 370]), (1, [Some 200, None, Some (5::real)])]"
  have cells: "\<forall>(n, vs)\<in>set ?data. 0 < length vs \<and> 1 < length vs \<and> 2 < length vs" by simp
  have fac: "factor (DepthIndexColumn.unit main_md_column) = Some (Finite 1)"
    by (simp add: main_md_column_def DistanceUnit_default_factor_def)
  have c0: "find_index example_sequence
       (column_external_id main_md_column) = Inr 0"
    using example_columns(1) by (simp add: main_md_column_def)
  have ev: "map (\<lambda>(n, vs). kept_row (Finite 1) 0 1 2 vs)
              (filter (\<lambda>(n, vs). row_is_kept 0 1 2 vs) ?data)
            = [\<lparr>TrajectoryIngestionRow.measured_depth = Finite 100, inclination = 1,
                        azimuth = 10\<rparr>]"
    by (simp add: row_is_kept_def kept_row_def truthy_def py_mod_def py_mul_def)
  from trajectory_rows_filtered[OF c0 example_columns(2) example_columns(3) cells fac,
      of "''wb''" "()" "()" "''OSDU''" True] ev
  show ?thesis by auto
qed

text \<open>
  Claim C9.  A row whose measured depth or azimuth is present and equal to 0 is dropped:
  the loop goes on with the rows collected so far, and a sequence with this row only gives
  the result \<open>None\<close>; so an azimuth of 0 drops the row.  A row with the azimuth 360, a
  measured depth that is present and not zero and an inclination that is present is kept,
  with the azimuth 0.
\<close>

theorem zero_cells_dropped:
  assumes cols: "find_index seq (column_external_id mdc) = Inr mi"
      "find_index seq inc_extid = Inr ii" "find_index seq azim_extid = Inr ai"
    and cells: "mi < length vs" "ii < length vs" "ai < length vs"
    and fac: "factor (DepthIndexColumn.unit mdc) = Some f"
  shows "(vs ! mi = Some 0 \<or> vs ! ai = Some 0 \<longrightarrow>
            trajectory_rows mdc mi ii ai ((n, vs) # items) acc
              = trajectory_rows mdc mi ii ai items acc
            \<and> create_trajectory_ingestion w seq [(n, vs)] mdc (inc_extid, iu) (azim_extid, au)
                sn df = Inr None)
       \<and> (vs ! ai = Some 360 \<and> truthy (vs ! mi) \<and> vs ! ii \<noteq> None \<longrightarrow>
            trajectory_rows mdc mi ii ai ((n, vs) # items) acc
              = trajectory_rows mdc mi ii ai items
                  (acc @ [\<lparr>TrajectoryIngestionRow.measured_depth = py_mul (the (vs ! mi)) f,
                           inclination = the (vs ! ii), azimuth = 0\<rparr>])
            \<and> (\<exists>traj. create_trajectory_ingestion w seq [(n, vs)] mdc (inc_extid, iu)
                         (azim_extid, au) sn df = Inr (Some traj)
                  \<and> rows traj
                      = [\<lparr>TrajectoryIngestionRow.measured_depth = py_mul (the (vs ! mi)) f,
                          inclination = the (vs ! ii), azimuth = 0\<rparr>]))"
proof (intro conjI impI)
  assume z: "vs ! mi = Some 0 \<or> vs ! ai = Some 0"
  then have nk: "\<not> row_is_kept mi ii ai vs" by (auto simp: row_is_kept_def truthy_def)
  then have row: "trajectory_row mdc mi ii ai vs = Inr None"
    using trajectory_row_eq[OF cells fac] by simp
  show "trajectory_rows mdc mi ii ai ((n, vs) # items) acc
              = trajectory_rows mdc mi ii ai items acc"
    using row by (simp add: bind_err_def)
  show "create_trajectory_ingestion w seq [(n, vs)] mdc (inc_extid, iu) (azim_extid, au)
                sn df = Inr None"
    using cols row by (simp add: create_trajectory_ingestion_def bind_err_def)
next
  assume k: "vs ! ai = Some 360 \<and> truthy (vs ! mi) \<and> vs ! ii \<noteq> None"
  let ?row = "\<lparr>TrajectoryIngestionRow.measured_depth = py_mul (the (vs ! mi)) f,
                           inclination = the (vs ! ii), azimuth = 0\<rparr>"
  from k have kept: "row_is_kept mi ii ai vs" by (simp add: row_is_kept_def truthy_def)
  from k have "kept_row f mi ii ai vs = ?row" by (simp add: kept_row_def py_mod_def)
  with kept have row: "trajectory_row mdc mi ii ai vs = Inr (Some ?row)"
    using trajectory_row_eq[OF cells fac] by simp
  show "trajectory_rows mdc mi ii ai ((n, vs) # items) acc
              = trajectory_rows mdc mi ii ai items (acc @ [?row])"
    using row by (simp add: bind_err_def)
  show "\<exists>traj. create_trajectory_ingestion w seq [(n, vs)] mdc (inc_extid, iu)
                         (azim_extid, au) sn df = Inr (Some traj)
                  \<and> rows traj = [?row]"
    using cols row by (simp add: create_trajectory_ingestion_def bind_err_def)
qed

theorem zero_cells_dropped_witness:
  "create_trajectory_ingestion ''wb''
       example_sequence
       [(7, [Some 100, Some 1, Some 0])]
       main_md_column
       (''Inclination'', ()) (''Azimuth'', ()) ''OSDU'' True = Inr None
   \<and> (\<exists>traj. create_trajectory_ingestion ''wb''
       example_sequence
       [(8, [Some 100, Some 1, Some 360])]
       main_md_column
       (''Inclination'', ()) (''Azimuth'', ()) ''OSDU'' True = Inr (Some traj)
      \<and> rows traj = [\<lparr>TrajectoryIngestionRow.measured_depth = Finite 100, inclination = 1,
                        azimuth = 0\<rparr>])"
proof -
  let ?v0 = "[Some 100, Some 1, Some (0::real)]"
  let ?v1 = "[Some 100, Some 1, Some (360::real)]"
  have fac: "factor (DepthIndexColumn.unit main_md_column) = Some (Finite 1)"
    by (simp add: main_md_column_def DistanceUnit_default_factor_def)
  have c0: "find_index example_sequence
       (column_external_id main_md_column) = Inr 0"
    using example_columns(1) by (simp add: main_md_column_def)
  have l0: "0 < length ?v0" "1 < length ?v0" "2 < length ?v0" by simp_all
  have l1: "0 < length ?v1" "1 < length ?v1" "2 < length ?v1" by simp_all
  from zero_cells_dropped[OF c0 example_columns(2) example_columns(3) l0 fac,
      of 7 "[]" "[]" "''wb''" "()" "()" "''OSDU''" True]
  have a: "create_trajectory_ingestion ''wb''
       example_sequence
       [(7, ?v0)] main_md_column (''Inclination'', ()) (''Azimuth'', ()) ''OSDU'' True = Inr None"
    by simp
  from zero_cells_dropped[OF c0 example_columns(2) example_columns(3) l1 fac,
      of 8 "[]" "[]" "''wb''" "()" "()" "''OSDU''" True]
  have b: "\<exists>traj. create_trajectory_ingestion ''wb''
       example_sequence
       [(8, ?v1)] main_md_column (''Inclination'', ()) (''Azimuth'', ()) ''OSDU'' True = Inr (Some traj)
      \<and> rows traj = [\<lparr>TrajectoryIngestionRow.measured_depth = Finite 100, inclination = 1,
                        azimuth = 0\<rparr>]"
    by (simp add: truthy_def py_mul_def)
  from a b show ?thesis by blast
qed

section \<open>The well and wellbore mappers\<close>

lemma chunks_concat: "chunks lst 1000 = Inr (chunks_from lst 1000 0)"
  by (simp add: chunks_def)

lemma ingest_calls_concat:
  "\<exists>wcs bcs. ingest_calls wis wbis = Inr (wcs, bcs) \<and> concat wcs = wis \<and> concat bcs = wbis"
proof -
  have "concat (chunks_from wis 1000 0) = wis" "concat (chunks_from wbis 1000 0) = wbis"
    using chunks_from_concat[of 1000 wis 0] chunks_from_concat[of 1000 wbis 0] by simp_all
  then show ?thesis by (simp add: ingest_calls_def chunks_concat bind_err_def)
qed

lemma wellbores_by_parent_filter:
  "wellbores_by_parent_external_id wbas k = filter (\<lambda>wb. parent_external_id wb = k) wbas"
proof -
  have "fold (\<lambda>wb d. d(parent_external_id wb := d (parent_external_id wb) @ [wb])) wbas d0 k
          = d0 k @ filter (\<lambda>wb. parent_external_id wb = k) wbas" for d0
    by (induction wbas arbitrary: d0) auto
  then show ?thesis by (simp add: wellbores_by_parent_external_id_def)
qed

subsection \<open>Wells with the same cleaned name\<close>

text \<open>The mapper of the second source system keeps, for every cleaned name, the first well
  that has it.\<close>

lemma firsts_keys: "key ` set (firsts key seen ws) = key ` set ws - seen"
  by (induction ws arbitrary: seen) auto

lemma firsts_distinct: "distinct (map key (firsts key seen ws))"
proof (induction ws arbitrary: seen)
  case Nil
  then show ?case by simp
next
  case (Cons w ws)
  have "key w \<notin> key ` set (firsts key (insert (key w) seen) ws)"
    by (simp add: firsts_keys)
  with Cons show ?case by auto
qed

lemma firsts_first:
  "key w \<notin> seen \<Longrightarrow> key w \<notin> key ` set pre \<Longrightarrow>
   \<exists>kept rest. firsts key seen (pre @ w # post) = kept @ w # rest \<and> set kept \<subseteq> set pre"
proof (induction pre arbitrary: seen)
  case Nil
  then show ?case by auto
next
  case (Cons a pre)
  show ?case
  proof (cases "key a \<in> seen")
    case True
    from Cons.prems have "key w \<notin> key ` set pre" by simp
    from Cons.IH[OF Cons.prems(1) this] True show ?thesis by auto
  next
    case False
    from Cons.prems have k1: "key w \<notin> insert (key a) seen" and k2: "key w \<notin> key ` set pre"
      by auto
    from Cons.IH[OF k1 k2] obtain kept rest where
      "firsts key (insert (key a) seen) (pre @ w # post) = kept @ w # rest" "set kept \<subseteq> set pre"
      by blast
    then have "firsts key seen ((a # pre) @ w # post) = (a # kept) @ w # rest
               \<and> set (a # kept) \<subseteq> set (a # pre)"
      using False by auto
    then show ?thesis by blast
  qed
qed

lemma edm_well_ingestion_Inr:
  "edm_well_ingestion f w = Inr wi \<Longrightarrow>
     WellIngestion.matching_id wi = clean_name (Asset.name w)
     \<and> asset_external_id (WellIngestion.source wi) = Asset.external_id w"
  by (auto simp: edm_well_ingestion_def bind_err_def Let_def split: sum.splits)

lemma edm_wells_loop_firsts:
  "edm_wells_loop f dd bp wells (wis, wbis, ids) = Inr (wis', wbis', ids') \<Longrightarrow>
   \<exists>new. wis' = wis @ new
     \<and> map WellIngestion.matching_id new
         = map (\<lambda>w. clean_name (Asset.name w)) (firsts (\<lambda>w. clean_name (Asset.name w)) ids wells)
     \<and> map (\<lambda>wi. asset_external_id (WellIngestion.source wi)) new
         = map Asset.external_id (firsts (\<lambda>w. clean_name (Asset.name w)) ids wells)"
proof (induction wells arbitrary: wis wbis ids)
  case Nil
  then show ?case by simp
next
  case (Cons w wells)
  from Cons.prems obtain wi where wi: "edm_well_ingestion f w = Inr wi"
    by (auto simp: bind_err_def Let_def split: sum.splits)
  note m = edm_well_ingestion_Inr[OF wi]
  show ?case
  proof (cases "clean_name (Asset.name w) \<in> ids")
    case True
    with Cons.prems wi m have
      "edm_wells_loop f dd bp wells (wis, wbis, ids) = Inr (wis', wbis', ids')"
      by (simp add: bind_err_def Let_def)
    from Cons.IH[OF this] True show ?thesis by simp
  next
    case False
    with Cons.prems wi m have
      "edm_wells_loop f dd bp wells
         (wis @ [wi],
          wbis @ map (edm_wellbore_ingestion dd w) (bp (Some (Asset.external_id w))),
          insert (clean_name (Asset.name w)) ids) = Inr (wis', wbis', ids')"
      by (simp add: bind_err_def Let_def)
    from Cons.IH[OF this] obtain new where new: "wis' = (wis @ [wi]) @ new"
      "map WellIngestion.matching_id new
         = map (\<lambda>w. clean_name (Asset.name w))
             (firsts (\<lambda>w. clean_name (Asset.name w)) (insert (clean_name (Asset.name w)) ids) wells)"
      "map (\<lambda>wi. asset_external_id (WellIngestion.source wi)) new
         = map Asset.external_id
             (firsts (\<lambda>w. clean_name (Asset.name w)) (insert (clean_name (Asset.name w)) ids) wells)"
      by blast
    have "wis' = wis @ (wi # new)" using new(1) by simp
    moreover have "map WellIngestion.matching_id (wi # new)
         = map (\<lambda>w. clean_name (Asset.name w))
             (firsts (\<lambda>w. clean_name (Asset.name w)) ids (w # wells))"
      using new(2) m False by simp
    moreover have "map (\<lambda>wi. asset_external_id (WellIngestion.source wi)) (wi # new)
         = map Asset.external_id (firsts (\<lambda>w. clean_name (Asset.name w)) ids (w # wells))"
      using new(3) m False by simp
    ultimately show ?thesis by blast
  qed
qed

lemma edm_wells_deduplicated:
  assumes "ingest_wells_and_wellbores_edm f wells wbas datums = Inr (wcs, bcs)"
  shows "distinct (map WellIngestion.matching_id (concat wcs))"
    and "set (map WellIngestion.matching_id (concat wcs))
           = (\<lambda>w. clean_name (Asset.name w)) ` set wells"
    and "map (\<lambda>wi. asset_external_id (WellIngestion.source wi)) (concat wcs)
           = map Asset.external_id (firsts (\<lambda>w. clean_name (Asset.name w)) {} wells)"
proof -
  let ?key = "\<lambda>w. clean_name (Asset.name w)"
  from assms obtain wis wbis ids where
    loop: "edm_wells_loop f (datum_dict_of datums) (wellbores_by_parent_external_id wbas) wells
             ([], [], {}) = Inr (wis, wbis, ids)"
    and calls: "ingest_calls wis wbis = Inr (wcs, bcs)"
    by (auto simp: ingest_wells_and_wellbores_edm_def bind_err_def split: sum.splits)
  from ingest_calls_concat[of wis wbis] calls have cc: "concat wcs = wis" by auto
  from edm_wells_loop_firsts[OF loop] have
    ids: "map WellIngestion.matching_id wis = map ?key (firsts ?key {} wells)"
    and src: "map (\<lambda>wi. asset_external_id (WellIngestion.source wi)) wis
                = map Asset.external_id (firsts ?key {} wells)" by auto
  show "distinct (map WellIngestion.matching_id (concat wcs))"
    unfolding cc ids by (rule firsts_distinct)
  show "set (map WellIngestion.matching_id (concat wcs)) = ?key ` set wells"
    unfolding cc ids using firsts_keys[of ?key "{}" wells] by simp
  show "map (\<lambda>wi. asset_external_id (WellIngestion.source wi)) (concat wcs)
           = map Asset.external_id (firsts ?key {} wells)"
    unfolding cc by (rule src)
qed

lemma edm_example_deduplicated:
  "(case (ingest_wells_and_wellbores_edm (\<lambda>s. None)
           [example_asset ''w1'' None ''A'' edm_coordinates,
            example_asset ''w2'' None ''A '' edm_coordinates] [] []
          :: py_error + (unit WellIngestion list list \<times> Distance WellboreIngestion list list)) of
      Inr (wcs, bcs) \<Rightarrow>
        map (\<lambda>wi. (WellIngestion.matching_id wi, asset_external_id (WellIngestion.source wi)))
            (concat wcs)
      | Inl e \<Rightarrow> [])
   = [(''A'', ''w1'')]"
  by code_simp

text \<open>
  Claim C5 says that the well mappers emit one well record for every cleaned name, that of
  the first well with the name.  The mapper of the first source system has no such test:
  for two wells with the names \<open>A\<close> and \<open>A\<close> followed by a space, both cleaned to \<open>A\<close>, it
  emits two well records with the matching id \<open>A\<close>.
\<close>

theorem osdu_wells_not_deduplicated:
  "(case (ingest_wells_and_wellbores_osdu
           [example_asset ''w1'' None ''A'' osdu_coordinates,
            example_asset ''w2'' None ''A '' osdu_coordinates] []
          :: py_error + (unit WellIngestion list list \<times> Datum WellboreIngestion list list)) of
      Inr (wcs, bcs) \<Rightarrow>
        map (\<lambda>wi. (WellIngestion.matching_id wi, asset_external_id (WellIngestion.source wi)))
            (concat wcs)
      | Inl e \<Rightarrow> [])
   = [(''A'', ''w1''), (''A'', ''w2'')]"
  by code_simp

subsection \<open>Missing metadata keys\<close>

text \<open>A missing coordinate raises \<open>KeyError\<close> in both mappers, and in the mapper of the
  second source system no other missing key raises.\<close>

lemma missing_coordinate_fatal:
  "Asset.metadata w ''GEO_LONGITUDE'' = None \<Longrightarrow>
     edm_well_ingestion f w = Inl (KeyError ''GEO_LONGITUDE'')"
  "Asset.metadata w ''GEO_LONGITUDE'' = Some lon \<Longrightarrow> py_float lon \<noteq> None \<Longrightarrow>
   Asset.metadata w ''GEO_LATITUDE'' = None \<Longrightarrow>
     edm_well_ingestion f w = Inl (KeyError ''GEO_LATITUDE'')"
  "Asset.metadata w ''Wgs84SpatialLocationX'' = None \<Longrightarrow>
     osdu_well_ingestion w wbs = Inl (KeyError ''Wgs84SpatialLocationX'')"
  "Asset.metadata w ''Wgs84SpatialLocationX'' = Some lon \<Longrightarrow> py_float lon \<noteq> None \<Longrightarrow>
   Asset.metadata w ''Wgs84SpatialLocationY'' = None \<Longrightarrow>
     osdu_well_ingestion w wbs = Inl (KeyError ''Wgs84SpatialLocationY'')"
  by (auto simp: edm_well_ingestion_def osdu_well_ingestion_def bind_err_def dict_item_def
      float_of_str_def Let_def)

lemma edm_well_ingestion_returns:
  "edm_coordinates_ok w \<Longrightarrow> \<exists>wi. edm_well_ingestion f w = Inr wi"
  by (auto simp: edm_coordinates_ok_def edm_well_ingestion_def bind_err_def dict_item_def
      float_of_str_def Let_def)

lemma edm_wells_loop_returns:
  "\<forall>w\<in>set wells. edm_coordinates_ok w \<Longrightarrow> \<exists>r. edm_wells_loop f dd bp wells st = Inr r"
proof (induction wells arbitrary: st)
  case Nil
  then show ?case by (cases st) auto
next
  case (Cons w wells)
  obtain wis wbis ids where st: "st = (wis, wbis, ids)" by (cases st) auto
  from Cons.prems have "edm_coordinates_ok w" by simp
  from edm_well_ingestion_returns[OF this] obtain wi where wi: "edm_well_ingestion f w = Inr wi"
    by blast
  from Cons.prems have rest: "\<forall>w\<in>set wells. edm_coordinates_ok w" by simp
  show ?case
    using Cons.IH[OF rest] wi st by (simp add: bind_err_def Let_def)
qed

lemma edm_other_keys_not_fatal:
  assumes "\<forall>w\<in>set wells. edm_coordinates_ok w"
  shows "\<exists>r. ingest_wells_and_wellbores_edm f wells wbas datums = Inr r"
proof -
  from edm_wells_loop_returns[OF assms] obtain wis wbis ids where
    "edm_wells_loop f (datum_dict_of datums) (wellbores_by_parent_external_id wbas) wells
       ([], [], {}) = Inr (wis, wbis, ids)"
    by (metis prod_cases3)
  then show ?thesis
    using ingest_calls_concat[of wis wbis]
    by (auto simp: ingest_wells_and_wellbores_edm_def bind_err_def)
qed

text \<open>
  Claim C8 says that, the two coordinates apart, a missing metadata key is treated as an
  absent value and is not fatal.  In the mapper of the first source system the variable
  \<open>datum\<close> is not set before the test of the two datum keys: for a well with its
  coordinates and one wellbore without the datum keys the mapper raises
  \<open>UnboundLocalError\<close>.
\<close>

theorem osdu_missing_datum_key_fatal:
  "(ingest_wells_and_wellbores_osdu [example_asset ''w1'' None ''A'' osdu_coordinates]
      [wellbore_without_datum]
      :: py_error + (unit WellIngestion list list \<times> Datum WellboreIngestion list list))
   = Inl (UnboundLocalError ''datum'')"
  by code_simp

subsection \<open>The datum of the first source system\<close>

lemma osdu_wellbore_ingestion_Inr:
  assumes "osdu_wellbore_ingestion well wb dv = Inr (wbi, dv')"
  shows "dv' = datum wbi"
    and "has_datum_keys wb \<Longrightarrow> datum wbi = Some (own_datum wb)"
    and "\<not> has_datum_keys wb \<Longrightarrow> datum wbi = dv \<and> dv \<noteq> None"
  using assms
  by (auto simp: osdu_wellbore_ingestion_def has_datum_keys_def own_datum_def bind_err_def
      float_of_str_def Let_def split: if_splits option.splits sum.splits)

lemma carried_append:
  "length ws = length new \<Longrightarrow> carried dv (zip ws new) \<Longrightarrow>
   carried (last_datum dv new) (zip ws' new') \<Longrightarrow>
   carried dv (zip (ws @ ws') (new @ new'))"
proof (induction ws new arbitrary: dv rule: list_induct2)
  case Nil
  then show ?case by (simp add: last_datum_def)
next
  case (Cons w ws n new)
  from Cons.prems(1) have hd: "if has_datum_keys w then datum n = Some (own_datum w)
       else datum n = dv \<and> dv \<noteq> None" and tl: "carried (datum n) (zip ws new)" by simp_all
  have "last_datum dv (n # new) = last_datum (datum n) new" by (simp add: last_datum_def)
  with Cons.prems(2) have "carried (last_datum (datum n) new) (zip ws' new')" by simp
  from Cons.IH[OF tl this] hd show ?case by simp
qed

lemma osdu_wellbores_loop_carried:
  "osdu_wellbores_loop well wbs (acc, dv) = Inr (acc', dv') \<Longrightarrow>
   \<exists>new. acc' = acc @ new \<and> length new = length wbs \<and> carried dv (zip wbs new)
         \<and> dv' = last_datum dv new"
proof (induction wbs arbitrary: acc dv)
  case Nil
  then show ?case by (simp add: last_datum_def)
next
  case (Cons wb wbs)
  from Cons.prems obtain wbi dv1 where
    step: "osdu_wellbore_ingestion well wb dv = Inr (wbi, dv1)"
    and rest: "osdu_wellbores_loop well wbs (acc @ [wbi], dv1) = Inr (acc', dv')"
    by (auto simp: bind_err_def split: sum.splits)
  from Cons.IH[OF rest] obtain new where new: "acc' = (acc @ [wbi]) @ new"
    "length new = length wbs" "carried dv1 (zip wbs new)" "dv' = last_datum dv1 new" by blast
  from osdu_wellbore_ingestion_Inr[OF step] have dv1: "dv1 = datum wbi"
    and h: "if has_datum_keys wb then datum wbi = Some (own_datum wb)
            else datum wbi = dv \<and> dv \<noteq> None" by auto
  have "acc' = acc @ (wbi # new)" using new(1) by simp
  moreover have "length (wbi # new) = length (wb # wbs)" using new(2) by simp
  moreover have "carried dv (zip (wb # wbs) (wbi # new))" using h new(3) dv1 by simp
  moreover have "dv' = last_datum dv (wbi # new)" using new(4) dv1 by (simp add: last_datum_def)
  ultimately show ?case by blast
qed

lemma osdu_wells_loop_carried:
  "osdu_wells_loop bp wells (wis, wbis, dv) = Inr (wis', wbis', dv') \<Longrightarrow>
   \<exists>new. wbis' = wbis @ new \<and> length new = length (processed bp wells)
         \<and> carried dv (zip (map snd (processed bp wells)) new)
         \<and> dv' = last_datum dv new"
proof (induction wells arbitrary: wis wbis dv)
  case Nil
  then show ?case by (simp add: processed_def last_datum_def)
next
  case (Cons w wells)
  let ?wbs = "bp (Some (Asset.external_id w))"
  from Cons.prems obtain wi wbis1 dv1 where
    inner: "osdu_wellbores_loop w ?wbs (wbis, dv) = Inr (wbis1, dv1)"
    and rest: "osdu_wells_loop bp wells (wis @ [wi], wbis1, dv1) = Inr (wis', wbis', dv')"
    by (auto simp: bind_err_def Let_def split: sum.splits)
  from osdu_wellbores_loop_carried[OF inner] obtain n1 where n1: "wbis1 = wbis @ n1"
    "length n1 = length ?wbs" "carried dv (zip ?wbs n1)" "dv1 = last_datum dv n1" by blast
  from Cons.IH[OF rest] obtain n2 where n2: "wbis' = wbis1 @ n2"
    "length n2 = length (processed bp wells)"
    "carried dv1 (zip (map snd (processed bp wells)) n2)" "dv' = last_datum dv1 n2" by blast
  have p: "map snd (processed bp (w # wells)) = ?wbs @ map snd (processed bp wells)"
    by (simp add: processed_def comp_def)
  have "wbis' = wbis @ (n1 @ n2)" using n1(1) n2(1) by simp
  moreover have "length (n1 @ n2) = length (processed bp (w # wells))"
    using n1(2) n2(2) by (simp add: processed_def)
  moreover have "carried dv (zip (map snd (processed bp (w # wells))) (n1 @ n2))"
    unfolding p using carried_append[OF n1(2)[symmetric] n1(3)] n2(3) n1(4) by simp
  moreover have "dv' = last_datum dv (n1 @ n2)"
    using n2(4) n1(4) by (simp add: last_datum_def)
  ultimately show ?case by blast
qed

lemma carried_latest:
  "carried prev ps \<Longrightarrow> k < length ps \<Longrightarrow>
     (\<exists>j\<le>k. has_datum_keys (fst (ps ! j))
         \<and> datum (snd (ps ! k)) = Some (own_datum (fst (ps ! j)))
         \<and> (\<forall>i. j < i \<and> i \<le> k \<longrightarrow> \<not> has_datum_keys (fst (ps ! i))))
     \<or> ((\<forall>i\<le>k. \<not> has_datum_keys (fst (ps ! i)))
          \<and> datum (snd (ps ! k)) = prev \<and> prev \<noteq> None)"
proof (induction ps arbitrary: prev k)
  case Nil
  then show ?case by simp
next
  case (Cons p ps)
  obtain wb wbi where p: "p = (wb, wbi)" by (cases p)
  from Cons.prems(1) p have hd: "if has_datum_keys wb then datum wbi = Some (own_datum wb)
       else datum wbi = prev \<and> prev \<noteq> None" and tl: "carried (datum wbi) ps" by simp_all
  show ?case
  proof (cases k)
    case 0
    then show ?thesis using hd p by (cases "has_datum_keys wb") auto
  next
    case (Suc k')
    with Cons.prems(2) have k': "k' < length ps" by simp
    from Cons.IH[OF tl k'] consider
      (own) j where "j \<le> k'" "has_datum_keys (fst (ps ! j))"
        "datum (snd (ps ! k')) = Some (own_datum (fst (ps ! j)))"
        "\<forall>i. j < i \<and> i \<le> k' \<longrightarrow> \<not> has_datum_keys (fst (ps ! i))"
      | (prev) "\<forall>i\<le>k'. \<not> has_datum_keys (fst (ps ! i))"
        "datum (snd (ps ! k')) = datum wbi" "datum wbi \<noteq> None"
      by blast
    then show ?thesis
    proof cases
      case own
      have "\<forall>i. Suc j < i \<and> i \<le> k \<longrightarrow> \<not> has_datum_keys (fst ((p # ps) ! i))"
      proof (intro allI impI)
        fix i assume i: "Suc j < i \<and> i \<le> k"
        then obtain i' where i': "i = Suc i'" by (cases i) auto
        with i Suc own(4) show "\<not> has_datum_keys (fst ((p # ps) ! i))" by simp
      qed
      moreover have "Suc j \<le> k" using own(1) Suc by simp
      moreover have "has_datum_keys (fst ((p # ps) ! Suc j))" using own(2) by simp
      moreover have "datum (snd ((p # ps) ! k)) = Some (own_datum (fst ((p # ps) ! Suc j)))"
        using own(3) Suc by simp
      ultimately show ?thesis by blast
    next
      case prev
      show ?thesis
      proof (cases "has_datum_keys wb")
        case True
        have "\<forall>i. 0 < i \<and> i \<le> k \<longrightarrow> \<not> has_datum_keys (fst ((p # ps) ! i))"
        proof (intro allI impI)
          fix i assume i: "0 < i \<and> i \<le> k"
          then obtain i' where i': "i = Suc i'" by (cases i) auto
          with i Suc prev(1) show "\<not> has_datum_keys (fst ((p # ps) ! i))" by simp
        qed
        moreover have "has_datum_keys (fst ((p # ps) ! 0))" using True p by simp
        moreover have "datum (snd ((p # ps) ! k)) = Some (own_datum (fst ((p # ps) ! 0)))"
          using prev(2) hd True p Suc by simp
        ultimately show ?thesis by blast
      next
        case False
        have "\<forall>i\<le>k. \<not> has_datum_keys (fst ((p # ps) ! i))"
        proof (intro allI impI)
          fix i assume i: "i \<le> k"
          show "\<not> has_datum_keys (fst ((p # ps) ! i))"
          proof (cases i)
            case 0
            then show ?thesis using False p by simp
          next
            case (Suc i')
            with i \<open>k = Suc k'\<close> prev(1) show ?thesis by simp
          qed
        qed
        moreover have "datum (snd ((p # ps) ! k)) = prev \<and> prev \<noteq> None"
          using prev(2) hd False Suc by simp
        ultimately show ?thesis by blast
      qed
    qed
  qed
qed

lemma carried_from_unbound:
  assumes "carried None ps" "k < length ps"
  shows "\<exists>j\<le>k. has_datum_keys (fst (ps ! j))
         \<and> datum (snd (ps ! k)) = Some (own_datum (fst (ps ! j)))
         \<and> (\<forall>i. j < i \<and> i \<le> k \<longrightarrow> \<not> has_datum_keys (fst (ps ! i)))"
  using carried_latest[OF assms] by blast

text \<open>
  Claim C10.  In the mapper of the first source system, a wellbore that lacks one of the
  two datum keys leaves the variable \<open>datum\<close> as it was: with the variable unbound the body
  raises \<open>UnboundLocalError\<close>, and with the variable bound the record receives its value.
  The variable changes only at a wellbore with both keys.  Over a whole run that returns,
  every emitted wellbore record carries the datum built for the latest wellbore, up to its
  own, that has both keys: its own datum when it has them, the datum of an earlier wellbore
  when it has not, and never \<open>None\<close>.
\<close>

theorem osdu_datum_carry_over:
  "(\<not> has_datum_keys wb \<longrightarrow>
       osdu_wellbore_ingestion well wb None = Inl (UnboundLocalError ''datum'')
       \<and> (\<forall>d. \<exists>wbi. osdu_wellbore_ingestion well wb (Some d) = Inr (wbi, Some d)
                      \<and> datum wbi = Some d))
   \<and> (\<forall>wbi dv'. osdu_wellbore_ingestion well wb dv = Inr (wbi, dv') \<and> dv' \<noteq> dv
         \<longrightarrow> has_datum_keys wb)
   \<and> (\<forall>wcs :: unit WellIngestion list list.
        ingest_wells_and_wellbores_osdu wells wbas = Inr (wcs, bcs) \<longrightarrow>
          length (concat bcs) = length (processed (wellbores_by_parent_external_id wbas) wells)
          \<and> (\<forall>k < length (concat bcs). \<exists>j\<le>k.
                has_datum_keys (snd (processed (wellbores_by_parent_external_id wbas) wells ! j))
                \<and> datum (concat bcs ! k)
                    = Some (own_datum
                              (snd (processed (wellbores_by_parent_external_id wbas) wells ! j)))
                \<and> (\<forall>i. j < i \<and> i \<le> k \<longrightarrow>
                      \<not> has_datum_keys
                          (snd (processed (wellbores_by_parent_external_id wbas) wells ! i)))))"
proof (intro conjI impI allI)
  assume "\<not> has_datum_keys wb"
  then show "osdu_wellbore_ingestion well wb None = Inl (UnboundLocalError ''datum'')"
    by (auto simp: osdu_wellbore_ingestion_def has_datum_keys_def bind_err_def)
next
  fix d assume "\<not> has_datum_keys wb"
  then show "\<exists>wbi. osdu_wellbore_ingestion well wb (Some d) = Inr (wbi, Some d)
                      \<and> datum wbi = Some d"
    by (auto simp: osdu_wellbore_ingestion_def has_datum_keys_def bind_err_def Let_def)
next
  fix wbi dv'
  assume "osdu_wellbore_ingestion well wb dv = Inr (wbi, dv') \<and> dv' \<noteq> dv"
  then show "has_datum_keys wb"
    by (auto simp: osdu_wellbore_ingestion_def has_datum_keys_def bind_err_def Let_def
        split: if_splits option.splits)
next
  fix wcs :: "unit WellIngestion list list"
  assume run: "ingest_wells_and_wellbores_osdu wells wbas = Inr (wcs, bcs)"
  let ?ps = "processed (wellbores_by_parent_external_id wbas) wells"
  from run obtain wis wbis dv' where
    loop: "osdu_wells_loop (wellbores_by_parent_external_id wbas) wells ([], [], None)
             = Inr (wis, wbis, dv')"
    and calls: "ingest_calls wis wbis = Inr (wcs, bcs)"
    by (auto simp: ingest_wells_and_wellbores_osdu_def bind_err_def split: sum.splits)
  from ingest_calls_concat[of wis wbis] calls have cc: "concat bcs = wbis" by auto
  from osdu_wells_loop_carried[OF loop] obtain new where new: "wbis = [] @ new"
    "length new = length ?ps" "carried None (zip (map snd ?ps) new)" by blast
  from new cc have len: "length (concat bcs) = length ?ps"
    and car: "carried None (zip (map snd ?ps) (concat bcs))" by simp_all
  show "length (concat bcs) = length ?ps" by (rule len)
  show "\<And>k. k < length (concat bcs) \<Longrightarrow> \<exists>j\<le>k.
           has_datum_keys (snd (?ps ! j))
           \<and> datum (concat bcs ! k) = Some (own_datum (snd (?ps ! j)))
           \<and> (\<forall>i. j < i \<and> i \<le> k \<longrightarrow> \<not> has_datum_keys (snd (?ps ! i)))"
  proof -
    fix k assume k: "k < length (concat bcs)"
    let ?z = "zip (map snd ?ps) (concat bcs)"
    from k len have kz: "k < length ?z" by simp
    from carried_from_unbound[OF car kz] obtain j where j: "j \<le> k"
      "has_datum_keys (fst (?z ! j))"
      "datum (snd (?z ! k)) = Some (own_datum (fst (?z ! j)))"
      "\<forall>i. j < i \<and> i \<le> k \<longrightarrow> \<not> has_datum_keys (fst (?z ! i))" by blast
    have nth: "\<And>i. i \<le> k \<Longrightarrow> fst (?z ! i) = snd (?ps ! i) \<and> snd (?z ! i) = concat bcs ! i"
      using k len by simp
    from j nth show "\<exists>j\<le>k.
           has_datum_keys (snd (?ps ! j))
           \<and> datum (concat bcs ! k) = Some (own_datum (snd (?ps ! j)))
           \<and> (\<forall>i. j < i \<and> i \<le> k \<longrightarrow> \<not> has_datum_keys (snd (?ps ! i)))"
      by (metis le_refl)
  qed
qed

lemma example_osdu_run:
  "(ingest_wells_and_wellbores_osdu [example_asset ''w1'' None ''A'' osdu_coordinates]
      [wellbore_with_datum, wellbore_without_datum]
      :: py_error + (unit WellIngestion list list \<times> Datum WellboreIngestion list list))
   = Inr ([[\<lparr>WellIngestion.name = ''A'', WellIngestion.description = Some ''A'',
             WellIngestion.matching_id = ''A'',
             WellIngestion.source = \<lparr>asset_external_id = ''w1'',
                                      AssetSource.source_name = ''OSDU''\<rparr>,
             wellhead = \<lparr>x = Finite 1.5, y = Finite 2, crs = ''EPSG:4326''\<rparr>,
             WellIngestion.type = None, water_depth = None, operator = None,
             spud_date = None\<rparr>]],
          [[\<lparr>WellboreIngestion.name = ''B0'', WellboreIngestion.description = ''B0'',
             WellboreIngestion.matching_id = ''b0'', well_asset_external_id = ''w1'',
             WellboreIngestion.source = \<lparr>asset_external_id = ''b0'',
                                          AssetSource.source_name = ''OSDU''\<rparr>,
             datum = Some \<lparr>Datum.value = Finite 25, Datum.unit = meter, reference = ''KB''\<rparr>\<rparr>,
            \<lparr>WellboreIngestion.name = ''B1'', WellboreIngestion.description = ''B1'',
             WellboreIngestion.matching_id = ''b1'', well_asset_external_id = ''w1'',
             WellboreIngestion.source = \<lparr>asset_external_id = ''b1'',
                                          AssetSource.source_name = ''OSDU''\<rparr>,
             datum = Some \<lparr>Datum.value = Finite 25, Datum.unit = meter,
                           reference = ''KB''\<rparr>\<rparr>]])"
  by code_simp

lemma example_keys:
  "has_datum_keys wellbore_with_datum" "\<not> has_datum_keys wellbore_without_datum"
  by code_simp+

theorem osdu_datum_carry_over_witness:
  "osdu_wellbore_ingestion (example_asset ''w1'' None ''A'' osdu_coordinates)
       wellbore_without_datum None = Inl (UnboundLocalError ''datum'')
   \<and> (\<exists>wcs :: unit WellIngestion list list. \<exists>r0 r1.
         ingest_wells_and_wellbores_osdu [example_asset ''w1'' None ''A'' osdu_coordinates]
           [wellbore_with_datum, wellbore_without_datum] = Inr (wcs, [[r0, r1]])
         \<and> datum r1 = Some (own_datum wellbore_with_datum))"
proof -
  let ?w = "example_asset ''w1'' None ''A'' osdu_coordinates"
  have a: "osdu_wellbore_ingestion ?w wellbore_without_datum None
             = Inl (UnboundLocalError ''datum'')"
    using osdu_datum_carry_over[of wellbore_without_datum ?w] example_keys(2) by blast
  have p: "processed (wellbores_by_parent_external_id
                       [wellbore_with_datum, wellbore_without_datum]) [?w]
           = [(?w, wellbore_with_datum), (?w, wellbore_without_datum)]"
    by (simp add: processed_def wellbores_by_parent_external_id_def wellbore_with_datum_def
        wellbore_without_datum_def example_asset_def)
  from example_osdu_run obtain wcs :: "unit WellIngestion list list" and r0 r1 where
    run: "ingest_wells_and_wellbores_osdu [?w] [wellbore_with_datum, wellbore_without_datum]
            = Inr (wcs, [[r0, r1]])" by blast
  from osdu_datum_carry_over[of wellbore_without_datum ?w None "[?w]"
      "[wellbore_with_datum, wellbore_without_datum]" "[[r0, r1]]"] run
  have "\<forall>k < length (concat [[r0, r1]]). \<exists>j\<le>k.
          has_datum_keys (snd ([(?w, wellbore_with_datum), (?w, wellbore_without_datum)] ! j))
          \<and> datum (concat [[r0, r1]] ! k)
              = Some (own_datum
                   (snd ([(?w, wellbore_with_datum), (?w, wellbore_without_datum)] ! j)))"
    unfolding p by blast
  then have "1 < length (concat [[r0, r1]]) \<longrightarrow> (\<exists>j\<le>1. has_datum_keys
                (snd ([(?w, wellbore_with_datum), (?w, wellbore_without_datum)] ! j))
          \<and> datum (concat [[r0, r1]] ! 1)
              = Some (own_datum
                   (snd ([(?w, wellbore_with_datum), (?w, wellbore_without_datum)] ! j))))"
    by (rule spec)
  moreover have "1 < length (concat [[r0, r1]])" by simp
  ultimately have "\<exists>j\<le>1. has_datum_keys
                (snd ([(?w, wellbore_with_datum), (?w, wellbore_without_datum)] ! j))
          \<and> datum (concat [[r0, r1]] ! 1)
              = Some (own_datum
                   (snd ([(?w, wellbore_with_datum), (?w, wellbore_without_datum)] ! j)))"
    by (rule mp)
  then obtain j where j: "j \<le> 1"
    "has_datum_keys (snd ([(?w, wellbore_with_datum), (?w, wellbore_without_datum)] ! j))"
    "datum (concat [[r0, r1]] ! 1)
       = Some (own_datum (snd ([(?w, wellbore_with_datum), (?w, wellbore_without_datum)] ! j)))"
    by blast
  from j(1) have "j = 0 \<or> j = 1" by auto
  with j(2) example_keys(2) have "j = 0" by auto
  with j(3) have "datum r1 = Some (own_datum wellbore_with_datum)" by simp
  with a run show ?thesis by blast
qed

end
